theory Spec2Isabelle
  imports Complex_Main
begin

section \<open>Ledger computations of the expense-tracking backend\<close>

text \<open>
  The models below follow the Mongoose models of the backend: \<open>Group\<close> (member roster),
  \<open>Expense\<close> (equal split on save, recurrence advancement) and \<open>Budget\<close> (statistics and
  status). A JavaScript number is the rational it denotes, and \<open>Math.round\<close>,
  \<open>Math.ceil\<close>, \<open>Math.abs\<close> and \<open>Math.max\<close> are the exact functions. The equal split
  rounds every quotient and product to the nearest double, as the code's arithmetic does;
  the budget statistics are the exact quotients. A \<open>Date\<close> is its time value, the number of milliseconds since the epoch, and every
  \<open>new Date()\<close> of one call is the explicit parameter \<open>now\<close>. An \<open>ObjectId\<close> is the string
  that \<open>toString()\<close> yields.
\<close>

type_synonym objectId = string
type_synonym date = int

subsection \<open>Budget: statistics and status\<close>

datatype budget_status = Active | Completed | Exceeded | Paused | Cancelled

record budget_stats =
  spentAmount :: rat
  remainingAmount :: rat
  percentageUsed :: rat
  daysRemaining :: int
  averageDailySpent :: rat
  lastUpdated :: date

record budget =
  amount :: rat
  startDate :: date
  endDate :: date
  alertThreshold :: rat
  stats :: budget_stats
  status :: budget_status

text \<open>\<open>1000 * 60 * 60 * 24\<close>, the milliseconds of a day.\<close>

definition msPerDay :: int where
  "msPerDay = 1000 * 60 * 60 * 24"

text \<open>The virtuals \<open>isExpired\<close>, \<open>isOverBudget\<close> and \<open>daysElapsed\<close>.\<close>

definition isExpired :: "date \<Rightarrow> budget \<Rightarrow> bool" where
  "isExpired now b = (now > budget.endDate b)"

definition isOverBudget :: "budget \<Rightarrow> bool" where
  "isOverBudget b = (spentAmount (budget.stats b) > budget.amount b)"

definition daysElapsed :: "date \<Rightarrow> budget \<Rightarrow> int" where
  "daysElapsed now b =
     (let start = startDate b;
          diffTime = \<bar>now - start\<bar>
      in \<lceil>(of_int diffTime :: rat) / of_int msPerDay\<rceil>)"

text \<open>The aggregation \<open>$group: {_id: null, totalSpent: {$sum: '$amount'}}\<close> over the
  amounts of the matching expenses: one group with the sum when an expense matches, no
  group at all otherwise.\<close>

definition aggregate_totalSpent :: "rat list \<Rightarrow> rat list" where
  "aggregate_totalSpent amounts = (if amounts = [] then [] else [sum_list amounts])"

text \<open>\<open>calculateStats\<close>, given the amounts of the expenses that match the budget's query.
  The schema requires \<open>amount \<ge> 0.01\<close>; a division by an amount of zero is outside the
  model.\<close>

definition calculateStats :: "date \<Rightarrow> rat list \<Rightarrow> budget \<Rightarrow> budget" where
  "calculateStats now amounts b =
     (let expenses = aggregate_totalSpent amounts;
          spent = (case expenses of [] \<Rightarrow> 0 | totalSpent # _ \<Rightarrow> totalSpent);
          remaining = max 0 (budget.amount b - spent);
          percentage = (spent / budget.amount b) * 100;
          diffTime = budget.endDate b - now;
          remainingDays = max 0 \<lceil>(of_int diffTime :: rat) / of_int msPerDay\<rceil>;
          elapsed = daysElapsed now b;
          average = (if elapsed > 0 then spent / of_int elapsed else 0)
      in b\<lparr>budget.stats := \<lparr>spentAmount = spent, remainingAmount = remaining,
                            percentageUsed = percentage, daysRemaining = remainingDays,
                            averageDailySpent = average, lastUpdated = now\<rparr>\<rparr>)"

definition updateStatus :: "date \<Rightarrow> budget \<Rightarrow> budget" where
  "updateStatus now b =
     (if budget.status b = Cancelled \<or> budget.status b = Paused then b
      else if isExpired now b
           then b\<lparr>budget.status := (if isOverBudget b then Exceeded else Completed)\<rparr>
      else if isOverBudget b then b\<lparr>budget.status := Exceeded\<rparr>
      else b\<lparr>budget.status := Active\<rparr>)"

definition shouldAlert :: "budget \<Rightarrow> bool" where
  "shouldAlert b = (percentageUsed (budget.stats b) \<ge> alertThreshold b
                     \<and> budget.status b = Active)"

text \<open>The validators that \<open>budgetSchema\<close> declares on the fields above, run by Mongoose
  when the document is validated for a save: \<open>amount\<close> has \<open>min: 0.01\<close>,
  \<open>settings.alertThreshold\<close> has \<open>min: 0, max: 100\<close>, and \<open>stats.percentageUsed\<close> has
  \<open>min: 0, max: 100\<close>.\<close>

definition budgetSchema_valid :: "budget \<Rightarrow> bool" where
  "budgetSchema_valid b =
     (1 / 100 \<le> budget.amount b
      \<and> 0 \<le> alertThreshold b \<and> alertThreshold b \<le> 100
      \<and> 0 \<le> percentageUsed (budget.stats b) \<and> percentageUsed (budget.stats b) \<le> 100)"

text \<open>Example budgets: an amount of 200 over the days 10 to 40 after the epoch.\<close>

definition budget200 :: "budget_status \<Rightarrow> rat \<Rightarrow> budget" where
  "budget200 st spent =
     \<lparr>budget.amount = 200, startDate = 10 * msPerDay, budget.endDate = 40 * msPerDay,
      alertThreshold = 80,
      budget.stats = \<lparr>spentAmount = spent, remainingAmount = 0, percentageUsed = 0,
                       daysRemaining = 0, averageDailySpent = 0, lastUpdated = 0\<rparr>,
      budget.status = st\<rparr>"

subsection \<open>Dates\<close>

text \<open>
  The \<open>Date\<close> methods that the recurrence uses, after the ECMAScript definitions of
  \<open>Day\<close>, \<open>TimeWithinDay\<close>, \<open>DaysInYear\<close>, \<open>DayFromYear\<close>, \<open>YearFromTime\<close>,
  \<open>MonthFromTime\<close>, \<open>DateFromTime\<close>, \<open>MakeDay\<close> and \<open>MakeDate\<close>. Months count from 0.
  The local time zone is taken to be UTC, and time values stay inside the range a \<open>Date\<close>
  can hold, so no \<open>Date\<close> is invalid. \<open>YearFromTime\<close> is the largest year whose first day
  is not after the given day; it is found by a search down and then up from an estimate.
\<close>

definition Day :: "date \<Rightarrow> int" where
  "Day t = t div msPerDay"

definition TimeWithinDay :: "date \<Rightarrow> int" where
  "TimeWithinDay t = t mod msPerDay"

definition DaysInYear :: "int \<Rightarrow> int" where
  "DaysInYear y =
     (if y mod 4 \<noteq> 0 then 365
      else if y mod 100 \<noteq> 0 then 366
      else if y mod 400 \<noteq> 0 then 365
      else 366)"

definition DayFromYear :: "int \<Rightarrow> int" where
  "DayFromYear y =
     365 * (y - 1970) + (y - 1969) div 4 - (y - 1901) div 100 + (y - 1601) div 400"

text \<open>The search for the year: down while the year starts after day \<open>d\<close>, then up while
  the following year starts on or before it.\<close>

function year_down :: "int \<Rightarrow> int \<Rightarrow> int" where
  "year_down y d = (if d < DayFromYear y then year_down (y - 1) d else y)"
  by pat_completeness auto
termination
proof (relation "measure (\<lambda>(y, d). nat (DayFromYear y - d))")
  show "wf (measure (\<lambda>(y, d). nat (DayFromYear y - d)))" by simp
next
  fix y d :: int
  assume a: "d < DayFromYear y"
  have "(y - 1 - 1969) div 4 \<le> (y - 1969) div 4" by (rule zdiv_mono1) simp_all
  moreover have "(y - 1901) div 100 \<le> (y - 1 - 1901 + 100) div 100" by (rule zdiv_mono1) simp_all
  then have "(y - 1901) div 100 \<le> (y - 1 - 1901) div 100 + 1" by simp
  moreover have "(y - 1 - 1601) div 400 \<le> (y - 1601) div 400" by (rule zdiv_mono1) simp_all
  ultimately have "DayFromYear (y - 1) < DayFromYear y" by (simp add: DayFromYear_def)
  with a show "((y - 1, d), (y, d)) \<in> measure (\<lambda>(y, d). nat (DayFromYear y - d))" by simp
qed

function year_up :: "int \<Rightarrow> int \<Rightarrow> int" where
  "year_up y d = (if DayFromYear (y + 1) \<le> d then year_up (y + 1) d else y)"
  by pat_completeness auto
termination
proof (relation "measure (\<lambda>(y, d). nat (d + 1 - DayFromYear (y + 1)))")
  show "wf (measure (\<lambda>(y, d). nat (d + 1 - DayFromYear (y + 1))))" by simp
next
  fix y d :: int
  assume a: "DayFromYear (y + 1) \<le> d"
  have "(y + 1 - 1969) div 4 \<le> (y + 1 + 1 - 1969) div 4" by (rule zdiv_mono1) simp_all
  moreover have "(y + 1 + 1 - 1901) div 100 \<le> (y + 1 - 1901 + 100) div 100"
    by (rule zdiv_mono1) simp_all
  then have "(y + 1 + 1 - 1901) div 100 \<le> (y + 1 - 1901) div 100 + 1" by simp
  moreover have "(y + 1 - 1601) div 400 \<le> (y + 1 + 1 - 1601) div 400" by (rule zdiv_mono1) simp_all
  ultimately have "DayFromYear (y + 1) < DayFromYear (y + 1 + 1)" by (simp add: DayFromYear_def)
  with a show "((y + 1, d), (y, d)) \<in> measure (\<lambda>(y, d). nat (d + 1 - DayFromYear (y + 1)))"
    by simp
qed

text \<open>The year that holds day number \<open>d\<close>.\<close>

definition YearFromDay :: "int \<Rightarrow> int" where
  "YearFromDay d = year_up (year_down (1970 + d div 365) d) d"

definition YearFromTime :: "date \<Rightarrow> int" where
  "YearFromTime t = YearFromDay (Day t)"

definition InLeapYear :: "date \<Rightarrow> int" where
  "InLeapYear t = (if DaysInYear (YearFromTime t) = 366 then 1 else 0)"

definition DayWithinYear :: "date \<Rightarrow> int" where
  "DayWithinYear t = Day t - DayFromYear (YearFromTime t)"

definition MonthFromTime :: "date \<Rightarrow> int" where
  "MonthFromTime t =
     (let d = DayWithinYear t; l = InLeapYear t
      in if d < 31 then 0
         else if d < 59 + l then 1
         else if d < 90 + l then 2
         else if d < 120 + l then 3
         else if d < 151 + l then 4
         else if d < 181 + l then 5
         else if d < 212 + l then 6
         else if d < 243 + l then 7
         else if d < 273 + l then 8
         else if d < 304 + l then 9
         else if d < 334 + l then 10
         else 11)"

definition DateFromTime :: "date \<Rightarrow> int" where
  "DateFromTime t =
     (let d = DayWithinYear t; l = InLeapYear t; m = MonthFromTime t
      in if m = 0 then d + 1
         else if m = 1 then d - 30
         else if m = 2 then d - 58 - l
         else if m = 3 then d - 89 - l
         else if m = 4 then d - 119 - l
         else if m = 5 then d - 150 - l
         else if m = 6 then d - 180 - l
         else if m = 7 then d - 211 - l
         else if m = 8 then d - 242 - l
         else if m = 9 then d - 272 - l
         else if m = 10 then d - 303 - l
         else d - 333 - l)"

text \<open>The day within the year on which month \<open>mn\<close> starts (\<open>l\<close> is 1 in a leap year), the
  table inside \<open>MakeDay\<close>, and the length of a month.\<close>

definition monthStart :: "int \<Rightarrow> int \<Rightarrow> int" where
  "monthStart l mn =
     (if mn = 0 then 0
      else if mn = 1 then 31
      else if mn = 2 then 59 + l
      else if mn = 3 then 90 + l
      else if mn = 4 then 120 + l
      else if mn = 5 then 151 + l
      else if mn = 6 then 181 + l
      else if mn = 7 then 212 + l
      else if mn = 8 then 243 + l
      else if mn = 9 then 273 + l
      else if mn = 10 then 304 + l
      else 334 + l)"

definition DaysInMonth :: "int \<Rightarrow> int \<Rightarrow> int" where
  "DaysInMonth year mn =
     (if mn = 1 then (if DaysInYear year = 366 then 29 else 28)
      else if mn = 3 \<or> mn = 5 \<or> mn = 8 \<or> mn = 10 then 30
      else 31)"

text \<open>\<open>MakeDay(year, month, date)\<close>: the month may lie outside 0..11 and the date outside
  the month; both carry over.\<close>

definition MakeDay :: "int \<Rightarrow> int \<Rightarrow> int \<Rightarrow> int" where
  "MakeDay year month dt =
     (let ym = year + month div 12;
          mn = month mod 12;
          l = (if DaysInYear ym = 366 then 1 else 0)
      in DayFromYear ym + monthStart l mn + dt - 1)"

definition MakeDate :: "int \<Rightarrow> int \<Rightarrow> date" where
  "MakeDate day time = day * msPerDay + time"

text \<open>\<open>getFullYear\<close>, \<open>getMonth\<close>, \<open>getDate\<close> and the setters \<open>setDate\<close>, \<open>setMonth\<close>,
  \<open>setFullYear\<close>, each of which keeps the time within the day.\<close>

definition getFullYear :: "date \<Rightarrow> int" where
  "getFullYear t = YearFromTime t"

definition getMonth :: "date \<Rightarrow> int" where
  "getMonth t = MonthFromTime t"

definition getDate :: "date \<Rightarrow> int" where
  "getDate t = DateFromTime t"

definition setDate :: "int \<Rightarrow> date \<Rightarrow> date" where
  "setDate dt t = MakeDate (MakeDay (YearFromTime t) (MonthFromTime t) dt) (TimeWithinDay t)"

definition setMonth :: "int \<Rightarrow> date \<Rightarrow> date" where
  "setMonth month t = MakeDate (MakeDay (YearFromTime t) month (DateFromTime t)) (TimeWithinDay t)"

definition setFullYear :: "int \<Rightarrow> date \<Rightarrow> date" where
  "setFullYear year t = MakeDate (MakeDay year (MonthFromTime t) (DateFromTime t)) (TimeWithinDay t)"

text \<open>\<open>Date.UTC(year, month, date)\<close> for a four-digit year, the time value of midnight UTC
  on a calendar day; for example \<open>Date.UTC(2024, 0, 31)\<close> is 1706659200000.\<close>

definition Date_UTC :: "int \<Rightarrow> int \<Rightarrow> int \<Rightarrow> date" where
  "Date_UTC year month dt = MakeDate (MakeDay year month dt) 0"

subsection \<open>Double arithmetic\<close>

text \<open>
  The equal split computes with JavaScript numbers, IEEE 754 doubles: every division and
  multiplication yields the double nearest to the exact result, a tie going to the even
  significand. \<open>double_of\<close> is that rounding, for magnitudes in the normal range of doubles
  (all amounts that the schema admits are); the amount of a document is itself a double,
  such as \<open>double_of (1003 / 100)\<close> for 10.03. \<open>bit_length\<close> is the number of binary digits
  of a positive integer and \<open>floor_log2 x\<close> the largest \<open>e\<close> with \<open>2^e \<le> x\<close>.
\<close>

function bit_length :: "int \<Rightarrow> int" where
  "bit_length n = (if n \<le> 0 then 0 else 1 + bit_length (n div 2))"
  by pat_completeness auto
termination
  by (relation "measure nat") simp_all

definition floor_log2 :: "rat \<Rightarrow> int" where
  "floor_log2 x =
     (let (p, q) = quotient_of x;
          d = bit_length p - bit_length q
      in if 2 powi d \<le> x then d else d - 1)"

definition round_half_even :: "rat \<Rightarrow> int" where
  "round_half_even x =
     (let f = \<lfloor>x\<rfloor>; r = x - of_int f
      in if r < 1 / 2 then f
         else if 1 / 2 < r then f + 1
         else if even f then f else f + 1)"

definition double_of :: "rat \<Rightarrow> rat" where
  "double_of x =
     (if x = 0 then 0
      else (let e = floor_log2 \<bar>x\<bar>;
                ulp = 2 powi (e - 52)
            in of_int (round_half_even (x / ulp)) * ulp))"

text \<open>\<open>Math.round\<close>: the nearest integer, a tie going up.\<close>

definition Math_round :: "rat \<Rightarrow> int" where
  "Math_round x = \<lfloor>x + 1 / 2\<rfloor>"

subsection \<open>Expense: equal split and recurrence\<close>

datatype expense_type = Personal | Group

datatype frequency = Daily | Weekly | Monthly | Yearly

text \<open>
  \<open>recurringPattern\<close> is a nested path of the schema: a document yields an object for it
  even when none of its fields was ever set. Such a pattern has no frequency, the default
  interval 1, no end date and no next occurrence; it is \<open>Some\<close> of that record here, and
  \<open>None\<close> stands for \<open>undefined\<close>, which a document never yields.
\<close>

record recurring_pattern =
  frequency :: "frequency option"
  interval :: int
  endDate :: "date option"
  nextOccurrence :: "date option"

record split_amount =
  userId :: objectId
  amount :: rat

record expense =
  amount :: rat
  date :: date
  type :: expense_type
  splitBetween :: "objectId list option"
  splitAmounts :: "split_amount list option"
  isRecurring :: bool
  recurringPattern :: "recurring_pattern option"

text \<open>The date that a case of the \<open>switch\<close> of \<open>calculateNextOccurrence\<close> leaves in
  \<open>nextDate\<close>. The interval is an integer (the schema gives it \<open>min: 1\<close> and \<open>default: 1\<close>).\<close>

definition nextDate :: "frequency \<Rightarrow> int \<Rightarrow> date \<Rightarrow> date" where
  "nextDate f n currentDate =
     (case f of
        Daily \<Rightarrow> setDate (getDate currentDate + n) currentDate
      | Weekly \<Rightarrow> setDate (getDate currentDate + n * 7) currentDate
      | Monthly \<Rightarrow> setMonth (getMonth currentDate + n) currentDate
      | Yearly \<Rightarrow> setFullYear (getFullYear currentDate + n) currentDate)"

text \<open>The value of \<open>nextDate\<close> after the \<open>switch\<close>: without a frequency no case matches and
  it is still the copy of the expense's date.\<close>

definition nextOccurrence_candidate :: "recurring_pattern \<Rightarrow> date \<Rightarrow> date" where
  "nextOccurrence_candidate p currentDate =
     (case frequency p of
        None \<Rightarrow> currentDate
      | Some f \<Rightarrow> nextDate f (interval p) currentDate)"

definition calculateNextOccurrence :: "expense \<Rightarrow> expense" where
  "calculateNextOccurrence e =
     (case recurringPattern e of
        None \<Rightarrow> e
      | Some p \<Rightarrow>
          (let next = nextOccurrence_candidate p (date e)
           in if (case recurring_pattern.endDate p of None \<Rightarrow> False | Some ed \<Rightarrow> next > ed)
              then e\<lparr>isRecurring := False,
                      recurringPattern := Some (p\<lparr>nextOccurrence := None\<rparr>)\<rparr>
              else e\<lparr>recurringPattern := Some (p\<lparr>nextOccurrence := Some next\<rparr>)\<rparr>))"

text \<open>The equal split of the first \<open>pre('save')\<close> hook: it runs for a group expense with a
  non-empty \<open>splitBetween\<close> when \<open>splitAmounts\<close> is missing or empty, and gives every
  participant \<open>Math.round(amountPerPerson * 100) / 100\<close>, computed in doubles.\<close>

definition equalSplit :: "expense \<Rightarrow> expense" where
  "equalSplit e =
     (case splitBetween e of
        None \<Rightarrow> e
      | Some sb \<Rightarrow>
          if type e = Group \<and> length sb > 0
          then (if (case splitAmounts e of None \<Rightarrow> True | Some sa \<Rightarrow> length sa = 0)
                then (let amountPerPerson = double_of (expense.amount e / of_nat (length sb))
                      in e\<lparr>splitAmounts := Some (map (\<lambda>u.
                            \<lparr>split_amount.userId = u,
                             split_amount.amount =
                               double_of (of_int (Math_round (double_of (amountPerPerson * 100)))
                                          / 100)\<rparr>)
                            sb)\<rparr>)
                else e)
          else e)"

text \<open>The hook itself: the equal split, then the next occurrence of a recurring expense.
  It always ends with \<open>next()\<close>, without an error.\<close>

definition expense_pre_save :: "expense \<Rightarrow> expense" where
  "expense_pre_save e =
     (let e1 = equalSplit e
      in if isRecurring e1 \<and> recurringPattern e1 \<noteq> None
         then calculateNextOccurrence e1 else e1)"

text \<open>
  \<open>save()\<close> validates the document against the schema before it runs the hook, and is
  refused with a \<open>ValidationError\<close> when a validator fails. The validators of the fields
  modelled here: \<open>amount\<close> has \<open>min: 0.01, max: 999999999.99\<close>, the \<open>amount\<close> of every
  entry of \<open>splitAmounts\<close> has \<open>min: 0\<close>, and \<open>recurringPattern.interval\<close> has \<open>min: 1\<close>. The
  fields that are \<open>required\<close> (\<open>amount\<close>, \<open>date\<close>, \<open>type\<close>, the \<open>userId\<close> and \<open>amount\<close> of a
  split entry) have no absent value in the records above. The shares that the hook
  computes are stored by the same save and are not validated by it.
\<close>

datatype save_error = ValidationError

definition expenseSchema_valid :: "expense \<Rightarrow> bool" where
  "expenseSchema_valid e =
     (double_of (1 / 100) \<le> expense.amount e
      \<and> expense.amount e \<le> double_of (99999999999 / 100)
      \<and> (case splitAmounts e of
            None \<Rightarrow> True
          | Some sa \<Rightarrow> list_all (\<lambda>s. 0 \<le> split_amount.amount s) sa)
      \<and> (case recurringPattern e of None \<Rightarrow> True | Some p \<Rightarrow> 1 \<le> interval p))"

definition expense_save :: "expense \<Rightarrow> save_error + expense" where
  "expense_save e =
     (if expenseSchema_valid e then Inr (expense_pre_save e) else Inl ValidationError)"

text \<open>The sum of the split amounts of an expense (0 when there are none).\<close>

definition splitTotal :: "expense \<Rightarrow> rat" where
  "splitTotal e =
     (case splitAmounts e of None \<Rightarrow> 0 | Some sa \<Rightarrow> sum_list (map split_amount.amount sa))"

text \<open>Example expenses: an amount among the participants \<open>a\<close>, \<open>b\<close>, \<open>c\<close> or \<open>a\<close>, \<open>b\<close>
  with the given split amounts and a recurrence pattern that was never set; explicit
  amounts that sum to 60; explicit amounts that sum to 100 with a negative entry; the equal
  shares of a list of participants.\<close>

definition pattern_absent :: recurring_pattern where
  "pattern_absent =
     \<lparr>frequency = None, interval = 1, recurring_pattern.endDate = None, nextOccurrence = None\<rparr>"

definition expense100 :: "split_amount list option \<Rightarrow> expense" where
  "expense100 sa =
     \<lparr>expense.amount = 100, date = Date_UTC 2024 0 31, type = Group,
      splitBetween = Some [''a'', ''b'', ''c''], splitAmounts = sa,
      isRecurring = False, recurringPattern = Some pattern_absent\<rparr>"

definition expense1003 :: "split_amount list option \<Rightarrow> expense" where
  "expense1003 sa =
     \<lparr>expense.amount = double_of (1003 / 100), date = Date_UTC 2024 0 31, type = Group,
      splitBetween = Some [''a'', ''b''], splitAmounts = sa,
      isRecurring = False, recurringPattern = Some pattern_absent\<rparr>"

definition custom60 :: "split_amount list" where
  "custom60 = [\<lparr>split_amount.userId = ''a'', split_amount.amount = 10\<rparr>,
               \<lparr>split_amount.userId = ''b'', split_amount.amount = 20\<rparr>,
               \<lparr>split_amount.userId = ''c'', split_amount.amount = 30\<rparr>]"

definition custom_negative :: "split_amount list" where
  "custom_negative = [\<lparr>split_amount.userId = ''a'', split_amount.amount = - 10\<rparr>,
                      \<lparr>split_amount.userId = ''b'', split_amount.amount = 50\<rparr>,
                      \<lparr>split_amount.userId = ''c'', split_amount.amount = 60\<rparr>]"

definition equal_shares :: "objectId list \<Rightarrow> rat \<Rightarrow> split_amount list" where
  "equal_shares ps b = map (\<lambda>u. \<lparr>split_amount.userId = u, split_amount.amount = b\<rparr>) ps"

text \<open>A monthly expense dated 2024-01-31 with an end date and a stale next occurrence.\<close>

definition pattern_monthly :: "date option \<Rightarrow> recurring_pattern" where
  "pattern_monthly ed =
     \<lparr>frequency = Some Monthly, interval = 1, recurring_pattern.endDate = ed,
      nextOccurrence = Some (Date_UTC 2024 0 31)\<rparr>"

definition monthly_jan31 :: "date option \<Rightarrow> expense" where
  "monthly_jan31 ed =
     \<lparr>expense.amount = 100, date = Date_UTC 2024 0 31, type = Personal,
      splitBetween = None, splitAmounts = None, isRecurring = True,
      recurringPattern = Some (pattern_monthly ed)\<rparr>"

subsection \<open>Group: the member roster\<close>

datatype role = Admin | Member

record member =
  userId :: objectId
  role :: role
  joinedAt :: date
  isActive :: bool

record group_stats =
  totalExpenses :: nat
  totalAmount :: rat
  memberCount :: nat
  lastActivity :: date

record group =
  members :: "member list"
  stats :: group_stats
  isNew :: bool
  inviteCode :: "string option"

text \<open>\<open>Array.prototype.findIndex\<close>: the index of the first element that satisfies the
  predicate, and \<open>-1\<close> when there is none.\<close>

fun findIndex :: "('a \<Rightarrow> bool) \<Rightarrow> 'a list \<Rightarrow> int" where
  "findIndex P [] = - 1"
| "findIndex P (x # xs) =
     (if P x then 0 else (let i = findIndex P xs in if i = - 1 then - 1 else i + 1))"

text \<open>\<open>Array.prototype.find\<close> returns the first matching element itself, a reference into
  the array; an assignment through that reference changes the array at that position.
  \<open>update_first\<close> is that write.\<close>

fun update_first :: "('a \<Rightarrow> bool) \<Rightarrow> ('a \<Rightarrow> 'a) \<Rightarrow> 'a list \<Rightarrow> 'a list" where
  "update_first P f [] = []"
| "update_first P f (x # xs) = (if P x then f x # xs else x # update_first P f xs)"

text \<open>The virtual \<open>activeMembers\<close>.\<close>

definition activeMembers :: "group \<Rightarrow> member list" where
  "activeMembers g = filter isActive (members g)"

text \<open>The first \<open>pre('save')\<close> hook of the group: the member count is recomputed from the
  roster, and a new group without an invite code gets the freshly generated one (the random
  code is the parameter \<open>code\<close>).\<close>

definition group_pre_save :: "string \<Rightarrow> group \<Rightarrow> group" where
  "group_pre_save code g =
     (let g1 = g\<lparr>stats := (stats g)\<lparr>memberCount := length (activeMembers g)\<rparr>\<rparr>
      in if isNew g1 \<and> (inviteCode g1 = None \<or> inviteCode g1 = Some [])
         then g1\<lparr>inviteCode := Some code\<rparr> else g1)"

text \<open>\<open>addMember(userId, role)\<close> returns the member record and leaves the group changed in
  place; the model returns both.\<close>

definition addMember :: "date \<Rightarrow> objectId \<Rightarrow> role \<Rightarrow> group \<Rightarrow> member \<times> group" where
  "addMember now u r g =
     (case find (\<lambda>m. userId m = u) (members g) of
        Some existingMember \<Rightarrow>
          if \<not> isActive existingMember
          then (let e = existingMember\<lparr>isActive := True, joinedAt := now\<rparr>
                in (e, g\<lparr>members := update_first (\<lambda>m. userId m = u) (\<lambda>_. e) (members g)\<rparr>))
          else (existingMember, g)
      | None \<Rightarrow>
          (let newMember = \<lparr>userId = u, role = r, joinedAt = now, isActive = True\<rparr>
           in (newMember, g\<lparr>members := members g @ [newMember]\<rparr>)))"

text \<open>\<open>removeMember(userId)\<close> returns \<open>true\<close> when a record was found and \<open>false\<close> ("not
  found") otherwise.\<close>

definition removeMember :: "objectId \<Rightarrow> group \<Rightarrow> bool \<times> group" where
  "removeMember u g =
     (let memberIndex = findIndex (\<lambda>m. userId m = u) (members g)
      in if memberIndex \<noteq> - 1
         then (True, g\<lparr>members := (members g)[nat memberIndex :=
                         (members g ! nat memberIndex)\<lparr>isActive := False\<rparr>]\<rparr>)
         else (False, g))"

definition isMember :: "objectId \<Rightarrow> group \<Rightarrow> bool" where
  "isMember u g = list_ex (\<lambda>m. userId m = u \<and> isActive m) (members g)"

definition isAdmin :: "objectId \<Rightarrow> group \<Rightarrow> bool" where
  "isAdmin u g = list_ex (\<lambda>m. userId m = u \<and> role m = Admin \<and> isActive m) (members g)"

subsection \<open>Example rosters\<close>

definition roster_active :: group where
  "roster_active = \<lparr>members = [\<lparr>userId = ''u1'', role = Admin, joinedAt = 0, isActive = True\<rparr>],
     stats = \<lparr>totalExpenses = 0, totalAmount = 0, memberCount = 1, lastActivity = 0\<rparr>,
     isNew = False, inviteCode = Some ''ABC123''\<rparr>"

definition roster_inactive :: group where
  "roster_inactive = \<lparr>members = [\<lparr>userId = ''u1'', role = Member, joinedAt = 0, isActive = False\<rparr>],
     stats = \<lparr>totalExpenses = 0, totalAmount = 0, memberCount = 0, lastActivity = 0\<rparr>,
     isNew = False, inviteCode = Some ''ABC123''\<rparr>"

text \<open>A roster with two records of one user, the first inactive. The schema does not
  exclude it, though \<open>addMember\<close> and \<open>removeMember\<close> never produce a second record of a
  user.\<close>

definition roster_duplicate :: group where
  "roster_duplicate = \<lparr>members =
       [\<lparr>userId = ''u1'', role = Member, joinedAt = 0, isActive = False\<rparr>,
        \<lparr>userId = ''u1'', role = Member, joinedAt = 5, isActive = True\<rparr>],
     stats = \<lparr>totalExpenses = 0, totalAmount = 0, memberCount = 1, lastActivity = 0\<rparr>,
     isNew = False, inviteCode = Some ''ABC123''\<rparr>"

text \<open>A roster of two active members, one record each.\<close>

definition roster_two :: group where
  "roster_two = \<lparr>members =
       [\<lparr>userId = ''u1'', role = Admin, joinedAt = 0, isActive = True\<rparr>,
        \<lparr>userId = ''u2'', role = Member, joinedAt = 5, isActive = True\<rparr>],
     stats = \<lparr>totalExpenses = 0, totalAmount = 0, memberCount = 2, lastActivity = 0\<rparr>,
     isNew = False, inviteCode = Some ''ABC123''\<rparr>"

section \<open>Properties of the member roster\<close>

lemma findIndex_ge: "- 1 \<le> findIndex P xs"
  by (induction xs) (auto simp: Let_def)

lemma findIndex_none: "(findIndex P xs = - 1) = (\<forall>x\<in>set xs. \<not> P x)"
proof (induction xs)
  case Nil
  show ?case by simp
next
  case (Cons x xs)
  have "- 1 \<le> findIndex P xs" by (rule findIndex_ge)
  with Cons show ?case by (auto simp: Let_def)
qed

lemma update_first_none: "\<forall>x\<in>set xs. \<not> P x \<Longrightarrow> update_first P f xs = xs"
  by (induction xs) auto

lemma length_update_first: "length (update_first P f xs) = length xs"
  by (induction xs) auto

lemma map_update_first: "(\<And>x. h (f x) = h x) \<Longrightarrow> map h (update_first P f xs) = map h xs"
  by (induction xs) auto

lemma findIndex_update:
  "findIndex P xs \<noteq> - 1 \<Longrightarrow>
     xs[nat (findIndex P xs) := f (xs ! nat (findIndex P xs))] = update_first P f xs"
proof (induction xs)
  case Nil
  then show ?case by simp
next
  case (Cons x xs)
  show ?case
  proof (cases "P x")
    case True
    then show ?thesis by simp
  next
    case False
    with Cons.prems have ne: "findIndex P xs \<noteq> - 1" by (auto simp: Let_def)
    moreover have "- 1 \<le> findIndex P xs" by (rule findIndex_ge)
    ultimately have nn: "0 \<le> findIndex P xs" by linarith
    then have "nat (findIndex P xs + 1) = Suc (nat (findIndex P xs))" by simp
    with False ne Cons.IH show ?thesis by (simp add: Let_def)
  qed
qed

lemma find_update_first:
  "find P xs = Some x \<Longrightarrow> P e \<Longrightarrow> find P (update_first P (\<lambda>_. e) xs) = Some e"
  by (induction xs) (auto split: if_splits)

lemma find_append_new: "find P xs = None \<Longrightarrow> P e \<Longrightarrow> find P (xs @ [e]) = Some e"
  by (induction xs) (auto split: if_splits)

lemma find_Some_P: "find P xs = Some x \<Longrightarrow> P x \<and> x \<in> set xs"
  by (induction xs) (auto split: if_splits)

lemma update_first_shape:
  "i < length xs \<Longrightarrow> update_first P f xs ! i = xs ! i \<or> update_first P f xs ! i = f (xs ! i)"
proof (induction xs arbitrary: i)
  case Nil
  then show ?case by simp
next
  case (Cons x xs)
  then show ?case by (cases i) auto
qed

lemma update_first_const:
  "find P xs = Some x \<Longrightarrow> update_first P (\<lambda>_. f x) xs = update_first P f xs"
  by (induction xs) (auto split: if_splits)

lemma addMember_again: "addMember now' u r' (snd (addMember now u r g)) = addMember now u r g"
proof (cases "find (\<lambda>m. userId m = u) (members g)")
  case None
  let ?n = "\<lparr>userId = u, role = r, joinedAt = now, isActive = True\<rparr>"
  have "find (\<lambda>m. userId m = u) (members g @ [?n]) = Some ?n"
    using None by (rule find_append_new) simp
  with None show ?thesis by (simp add: addMember_def Let_def)
next
  case (Some m)
  show ?thesis
  proof (cases "isActive m")
    case True
    with Some show ?thesis by (simp add: addMember_def)
  next
    case False
    let ?e = "m\<lparr>isActive := True, joinedAt := now\<rparr>"
    have "userId m = u" using Some by (auto dest: find_Some_P)
    then have "userId ?e = u" by simp
    with Some have "find (\<lambda>m. userId m = u)
        (update_first (\<lambda>m. userId m = u) (\<lambda>_. ?e) (members g)) = Some ?e"
      by (rule find_update_first)
    with Some False show ?thesis by (simp add: addMember_def Let_def)
  qed
qed

subsection \<open>removeMember\<close>

text \<open>
  C8, as the code has it. \<open>removeMember\<close> looks the user up with \<open>findIndex\<close> on the user
  id alone, so for every group and user id: it answers "not found" (\<open>false\<close>) exactly when
  the roster holds no record of the user at all, active or not; otherwise it answers
  \<open>true\<close> and sets \<open>isActive\<close> of the first record of the user to \<open>false\<close>. No record is
  ever deleted: the roster keeps its length, and the user ids, roles and join dates stay
  as they were, position by position.
\<close>

theorem removeMember_first_record:
  "(\<not> fst (removeMember u g)) = (\<forall>m\<in>set (members g). userId m \<noteq> u)
   \<and> snd (removeMember u g) =
       g\<lparr>members := update_first (\<lambda>m. userId m = u) (\<lambda>m. m\<lparr>isActive := False\<rparr>) (members g)\<rparr>
   \<and> length (members (snd (removeMember u g))) = length (members g)
   \<and> map userId (members (snd (removeMember u g))) = map userId (members g)
   \<and> map role (members (snd (removeMember u g))) = map role (members g)
   \<and> map joinedAt (members (snd (removeMember u g))) = map joinedAt (members g)"
proof -
  let ?P = "\<lambda>m. userId m = u"
  let ?f = "\<lambda>m::member. m\<lparr>isActive := False\<rparr>"
  have snd_eq: "snd (removeMember u g) = g\<lparr>members := update_first ?P ?f (members g)\<rparr>"
  proof (cases "findIndex ?P (members g) = - 1")
    case True
    then have "\<forall>m\<in>set (members g). \<not> ?P m" by (simp add: findIndex_none)
    then have "update_first ?P ?f (members g) = members g" by (rule update_first_none)
    with True show ?thesis by (simp add: removeMember_def)
  next
    case False
    then show ?thesis by (simp add: removeMember_def Let_def findIndex_update)
  qed
  have fst_eq: "(\<not> fst (removeMember u g)) = (\<forall>m\<in>set (members g). userId m \<noteq> u)"
    by (simp add: removeMember_def Let_def findIndex_none)
  show ?thesis
    unfolding snd_eq using fst_eq
    by (simp add: length_update_first map_update_first)
qed

text \<open>
  C8, witness: on the roster with two records of \<open>u1\<close> the user is found, the first record
  is the one written and both records are still there.
\<close>

theorem removeMember_first_record_witness:
  "(\<exists>m\<in>set (members roster_duplicate). userId m = ''u1'')
   \<and> fst (removeMember ''u1'' roster_duplicate)
   \<and> map isActive (members (snd (removeMember ''u1'' roster_duplicate))) = [False, True]
   \<and> length (members (snd (removeMember ''u1'' roster_duplicate))) = 2"
  using removeMember_first_record [of "''u1''" roster_duplicate]
  by (simp add: roster_duplicate_def)

text \<open>
  C8, counterexample to the claim as stated: the only record of \<open>u1\<close> is already inactive,
  so no active record of \<open>u1\<close> exists, and still \<open>removeMember\<close> answers \<open>true\<close> (found)
  and leaves the group as it was.
\<close>

theorem removeMember_inactive_counterexample:
  "\<not> (\<exists>m\<in>set (members roster_inactive). userId m = ''u1'' \<and> isActive m)
   \<and> fst (removeMember ''u1'' roster_inactive)
   \<and> snd (removeMember ''u1'' roster_inactive) = roster_inactive"
  by (simp add: roster_inactive_def removeMember_def)

subsection \<open>addMember\<close>

text \<open>
  A roster holds one record per user: \<open>addMember\<close> appends a record only when it finds
  none of the user, and \<open>removeMember\<close> only writes \<open>isActive\<close>, so both keep the user
  ids of a roster distinct. On such a roster the record that \<open>find\<close> returns for a user
  is the record of that user.
\<close>

lemma find_one_record:
  "distinct (map userId xs) \<Longrightarrow> m \<in> set xs \<Longrightarrow> userId m = u \<Longrightarrow>
     find (\<lambda>m. userId m = u) xs = Some m"
proof (induction xs)
  case Nil
  then show ?case by simp
next
  case (Cons x xs)
  show ?case
  proof (cases "userId x = u")
    case True
    have "m = x"
    proof (rule ccontr)
      assume "m \<noteq> x"
      with Cons.prems(2) have "m \<in> set xs" by simp
      then have "userId m \<in> set (map userId xs)" by simp
      with Cons.prems(1,3) True show False by simp
    qed
    with True show ?thesis by simp
  next
    case False
    with Cons.prems have "m \<in> set xs" by auto
    with Cons False show ?thesis by simp
  qed
qed

lemma addMember_userIds:
  "map userId (members (snd (addMember now u r g)))
     = (if \<exists>m\<in>set (members g). userId m = u then map userId (members g)
        else map userId (members g) @ [u])"
proof (cases "find (\<lambda>m. userId m = u) (members g)")
  case None
  then have "\<not> (\<exists>m\<in>set (members g). userId m = u)" by (simp add: find_None_iff)
  with None show ?thesis by (simp add: addMember_def Let_def)
next
  case (Some m)
  then have ex: "\<exists>m\<in>set (members g). userId m = u" by (auto dest: find_Some_P)
  have "update_first (\<lambda>m. userId m = u) (\<lambda>_. m\<lparr>isActive := True, joinedAt := now\<rparr>) (members g)
      = update_first (\<lambda>m. userId m = u) (\<lambda>m. m\<lparr>isActive := True, joinedAt := now\<rparr>) (members g)"
    using Some by (rule update_first_const)
  then have "map userId (update_first (\<lambda>m. userId m = u)
      (\<lambda>_. m\<lparr>isActive := True, joinedAt := now\<rparr>) (members g)) = map userId (members g)"
    by (simp add: map_update_first)
  with Some ex show ?thesis by (simp add: addMember_def Let_def)
qed

lemma addMember_one_record_per_user:
  "distinct (map userId (members g)) \<Longrightarrow>
     distinct (map userId (members (snd (addMember now u r g))))"
  unfolding addMember_userIds by auto

lemma removeMember_members:
  "members (snd (removeMember u g))
     = update_first (\<lambda>m. userId m = u) (\<lambda>m. m\<lparr>isActive := False\<rparr>) (members g)"
proof (cases "findIndex (\<lambda>m. userId m = u) (members g) = - 1")
  case True
  then have "\<forall>m\<in>set (members g). \<not> userId m = u" by (simp add: findIndex_none)
  then have "update_first (\<lambda>m. userId m = u) (\<lambda>m. m\<lparr>isActive := False\<rparr>) (members g) = members g"
    by (rule update_first_none)
  with True show ?thesis by (simp add: removeMember_def)
next
  case False
  then show ?thesis by (simp add: removeMember_def Let_def findIndex_update)
qed

lemma removeMember_one_record_per_user:
  "distinct (map userId (members g)) \<Longrightarrow>
     distinct (map userId (members (snd (removeMember u g))))"
  by (simp add: removeMember_members map_update_first)

text \<open>
  C9. For every group with one record per user and every user that has an active member
  record: \<open>addMember\<close> with that user, whatever the role asked for, returns the existing
  record unchanged and leaves the group identical; calling it twice does the same, so the
  roster has no duplicate entry and the member count that the save hook computes is
  unchanged.
\<close>

theorem addMember_idempotent:
  assumes "distinct (map userId (members g))" and "m \<in> set (members g)"
    and "userId m = u" and "isActive m"
  shows "addMember now u r g = (m, g)
     \<and> addMember now' u r' (snd (addMember now u r g)) = (m, g)
     \<and> members (snd (addMember now' u r' (snd (addMember now u r g)))) = members g
     \<and> distinct (map userId (members (snd (addMember now' u r' (snd (addMember now u r g))))))
     \<and> memberCount (stats (group_pre_save c (snd (addMember now' u r' (snd (addMember now u r g))))))
         = memberCount (stats (group_pre_save c g))"
proof -
  have f: "find (\<lambda>m. userId m = u) (members g) = Some m"
    using assms(1-3) by (rule find_one_record)
  have one: "addMember t u q g = (m, g)" for t q
    using f assms(4) by (simp add: addMember_def)
  have two: "addMember now' u r' (snd (addMember now u r g)) = (m, g)"
    by (simp add: one)
  from one [of now r] two assms(1) show ?thesis by simp
qed

text \<open>
  C9, witness: \<open>u2\<close> is an active member of a roster of two; adding \<open>u2\<close> as admin and
  then again as member returns the member record each time and the same group, with the
  member count 2.
\<close>

theorem addMember_idempotent_witness:
  "distinct (map userId (members roster_two))
   \<and> \<lparr>userId = ''u2'', role = Member, joinedAt = 5, isActive = True\<rparr> \<in> set (members roster_two)
   \<and> addMember 9 ''u2'' Admin roster_two
        = (\<lparr>userId = ''u2'', role = Member, joinedAt = 5, isActive = True\<rparr>, roster_two)
   \<and> addMember 11 ''u2'' Member (snd (addMember 9 ''u2'' Admin roster_two))
        = (\<lparr>userId = ''u2'', role = Member, joinedAt = 5, isActive = True\<rparr>, roster_two)
   \<and> memberCount (stats (group_pre_save [] (snd (addMember 11 ''u2'' Member
          (snd (addMember 9 ''u2'' Admin roster_two)))))) = 2"
proof -
  let ?m = "\<lparr>userId = ''u2'', role = Member, joinedAt = 5, isActive = True\<rparr>"
  have h1: "distinct (map userId (members roster_two))" by (simp add: roster_two_def)
  have h2: "?m \<in> set (members roster_two)" by (simp add: roster_two_def)
  have h3: "userId ?m = ''u2''" by simp
  have h4: "isActive ?m" by simp
  have c: "memberCount (stats (group_pre_save [] roster_two)) = 2"
    by (simp add: roster_two_def group_pre_save_def activeMembers_def Let_def)
  from addMember_idempotent [OF h1 h2 h3 h4, of 9 Admin 11 Member "[]"] h1 h2
  show ?thesis unfolding c by blast
qed

text \<open>
  C10. For every group, user and requested role: when a record of the user exists, active or
  not, \<open>addMember\<close> leaves the role and the user id of every record unchanged, each record
  is either as before or differs only in \<open>isActive = true\<close> and \<open>joinedAt = now\<close>, and the
  record returned has the role of a record of the user that was already there. The role
  argument is used only when no record of the user exists: then one new active record with
  that role is appended.
\<close>

theorem addMember_keeps_role:
  "((\<exists>m\<in>set (members g). userId m = u) \<longrightarrow>
      map role (members (snd (addMember now u r g))) = map role (members g)
      \<and> map userId (members (snd (addMember now u r g))) = map userId (members g)
      \<and> (\<forall>i<length (members g).
            members (snd (addMember now u r g)) ! i = members g ! i
            \<or> members (snd (addMember now u r g)) ! i
                 = (members g ! i)\<lparr>isActive := True, joinedAt := now\<rparr>)
      \<and> (\<exists>m\<in>set (members g). userId m = u \<and> role (fst (addMember now u r g)) = role m))
   \<and> ((\<forall>m\<in>set (members g). userId m \<noteq> u) \<longrightarrow>
      members (snd (addMember now u r g))
        = members g @ [\<lparr>userId = u, role = r, joinedAt = now, isActive = True\<rparr>]
      \<and> fst (addMember now u r g) = \<lparr>userId = u, role = r, joinedAt = now, isActive = True\<rparr>)"
proof (cases "find (\<lambda>m. userId m = u) (members g)")
  case None
  then have no: "\<forall>m\<in>set (members g). userId m \<noteq> u" by (simp add: find_None_iff)
  with None show ?thesis by (simp add: addMember_def Let_def)
next
  case (Some m)
  then have m: "userId m = u" "m \<in> set (members g)" by (auto dest: find_Some_P)
  then have ex: "\<exists>m\<in>set (members g). userId m = u" by blast
  show ?thesis
  proof (cases "isActive m")
    case True
    with Some m show ?thesis by (auto simp: addMember_def)
  next
    case False
    let ?e = "m\<lparr>isActive := True, joinedAt := now\<rparr>"
    let ?ms = "update_first (\<lambda>m. userId m = u)
                 (\<lambda>m. m\<lparr>isActive := True, joinedAt := now\<rparr>) (members g)"
    have upd: "update_first (\<lambda>m. userId m = u) (\<lambda>_. ?e) (members g) = ?ms"
      using Some by (rule update_first_const)
    have snd_eq: "members (snd (addMember now u r g)) = ?ms"
      using Some False upd by (simp add: addMember_def Let_def)
    have fst_eq: "fst (addMember now u r g) = ?e"
      using Some False by (simp add: addMember_def Let_def)
    have shape: "\<forall>i<length (members g). ?ms ! i = members g ! i
        \<or> ?ms ! i = (members g ! i)\<lparr>isActive := True, joinedAt := now\<rparr>"
      using update_first_shape [of _ "members g" "\<lambda>m. userId m = u"
          "\<lambda>m. m\<lparr>isActive := True, joinedAt := now\<rparr>"] by blast
    have "role (fst (addMember now u r g)) = role m" unfolding fst_eq by simp
    with m have "\<exists>m\<in>set (members g). userId m = u \<and> role (fst (addMember now u r g)) = role m"
      by blast
    with shape have first: "map role ?ms = map role (members g)
      \<and> map userId ?ms = map userId (members g)
      \<and> (\<forall>i<length (members g). ?ms ! i = members g ! i
            \<or> ?ms ! i = (members g ! i)\<lparr>isActive := True, joinedAt := now\<rparr>)
      \<and> (\<exists>m\<in>set (members g). userId m = u \<and> role (fst (addMember now u r g)) = role m)"
      by (simp add: map_update_first)
    have second: "\<not> (\<forall>m\<in>set (members g). userId m \<noteq> u)" using ex by blast
    show ?thesis unfolding snd_eq using first second by blast
  qed
qed

text \<open>
  C10, witness: \<open>u1\<close> has an inactive record with role \<open>member\<close>; adding \<open>u1\<close> as admin
  reactivates the record and its role is still \<open>member\<close>. A user without a record gets a
  new record with the requested role.
\<close>

theorem addMember_keeps_role_witness:
  "(\<exists>m\<in>set (members roster_inactive). userId m = ''u1'')
   \<and> members (snd (addMember 9 ''u1'' Admin roster_inactive))
       = [\<lparr>userId = ''u1'', role = Member, joinedAt = 9, isActive = True\<rparr>]
   \<and> \<not> (\<exists>m\<in>set (members roster_inactive). userId m = ''u2'')
   \<and> members (snd (addMember 9 ''u2'' Admin roster_inactive))
       = [\<lparr>userId = ''u1'', role = Member, joinedAt = 0, isActive = False\<rparr>,
          \<lparr>userId = ''u2'', role = Admin, joinedAt = 9, isActive = True\<rparr>]"
  using addMember_keeps_role [of roster_inactive "''u1''" 9 Admin]
    addMember_keeps_role [of roster_inactive "''u2''" 9 Admin]
  by (simp add: roster_inactive_def addMember_def Let_def)

section \<open>Properties of the budget statistics and status\<close>

lemma spent_eq: "(case aggregate_totalSpent xs of [] \<Rightarrow> 0 | t # _ \<Rightarrow> t) = sum_list xs"
  by (simp add: aggregate_totalSpent_def)

lemma ceiling_days_nonneg: "0 \<le> d \<Longrightarrow> 0 \<le> \<lceil>(of_int d :: rat) / of_int msPerDay\<rceil>"
  by (simp add: msPerDay_def)

lemma ceiling_days_pos: "0 < d \<Longrightarrow> 0 < \<lceil>(of_int d :: rat) / of_int msPerDay\<rceil>"
  by (simp add: msPerDay_def)

subsection \<open>Status derivation\<close>

text \<open>
  C2. For every budget and time \<open>now\<close>: when the current status is neither \<open>paused\<close> nor
  \<open>cancelled\<close>, \<open>updateStatus\<close> sets the status to \<open>exceeded\<close> if \<open>now > endDate\<close> and
  \<open>spentAmount > amount\<close>, to \<open>completed\<close> if \<open>now > endDate\<close> and \<open>spentAmount \<le> amount\<close>,
  to \<open>exceeded\<close> if \<open>now \<le> endDate\<close> and \<open>spentAmount > amount\<close>, and to \<open>active\<close>
  otherwise, and changes no other field; when the current status is \<open>paused\<close> or
  \<open>cancelled\<close> the budget is returned as it is, whatever the spend and the time.
\<close>

theorem updateStatus_derivation:
  "(budget.status b \<noteq> Paused \<and> budget.status b \<noteq> Cancelled \<longrightarrow>
      (now > budget.endDate b \<and> spentAmount (budget.stats b) > budget.amount b
         \<longrightarrow> updateStatus now b = b\<lparr>budget.status := Exceeded\<rparr>)
    \<and> (now > budget.endDate b \<and> spentAmount (budget.stats b) \<le> budget.amount b
         \<longrightarrow> updateStatus now b = b\<lparr>budget.status := Completed\<rparr>)
    \<and> (now \<le> budget.endDate b \<and> spentAmount (budget.stats b) > budget.amount b
         \<longrightarrow> updateStatus now b = b\<lparr>budget.status := Exceeded\<rparr>)
    \<and> (now \<le> budget.endDate b \<and> spentAmount (budget.stats b) \<le> budget.amount b
         \<longrightarrow> updateStatus now b = b\<lparr>budget.status := Active\<rparr>))
   \<and> (budget.status b = Paused \<or> budget.status b = Cancelled \<longrightarrow> updateStatus now b = b)"
  by (simp add: updateStatus_def isExpired_def isOverBudget_def)

text \<open>
  C2, witness: the budget of 200 that ends on day 40, in each of the four cases and under
  both sticky statuses.
\<close>

theorem updateStatus_derivation_witness:
  "budget.status (updateStatus (41 * msPerDay) (budget200 Active 250)) = Exceeded
   \<and> budget.status (updateStatus (41 * msPerDay) (budget200 Exceeded 200)) = Completed
   \<and> budget.status (updateStatus (40 * msPerDay) (budget200 Completed 250)) = Exceeded
   \<and> budget.status (updateStatus (40 * msPerDay) (budget200 Exceeded 200)) = Active
   \<and> updateStatus (41 * msPerDay) (budget200 Paused 250) = budget200 Paused 250
   \<and> updateStatus (20 * msPerDay) (budget200 Cancelled 0) = budget200 Cancelled 0"
  using updateStatus_derivation [of "budget200 Active 250" "41 * msPerDay"]
    updateStatus_derivation [of "budget200 Exceeded 200" "41 * msPerDay"]
    updateStatus_derivation [of "budget200 Completed 250" "40 * msPerDay"]
    updateStatus_derivation [of "budget200 Exceeded 200" "40 * msPerDay"]
    updateStatus_derivation [of "budget200 Paused 250" "41 * msPerDay"]
    updateStatus_derivation [of "budget200 Cancelled 0" "20 * msPerDay"]
  by (simp add: budget200_def msPerDay_def)

subsection \<open>Percentage used\<close>

text \<open>What \<open>calculateStats\<close> computes: the percentage is \<open>100 \<times> spent / amount\<close>, and it is
  not negative when the amount is positive and no expense amount is negative.\<close>

lemma calculateStats_percentage:
  "percentageUsed (budget.stats (calculateStats now xs b)) = 100 * sum_list xs / budget.amount b"
  by (simp add: calculateStats_def Let_def spent_eq)

lemma calculateStats_percentage_nonneg:
  "0 < budget.amount b \<Longrightarrow> \<forall>x\<in>set xs. 0 \<le> x \<Longrightarrow>
     0 \<le> percentageUsed (budget.stats (calculateStats now xs b))"
  by (simp add: calculateStats_percentage sum_list_nonneg)

text \<open>
  C6, the code at the input of the claim's example. The budget of 200 passes the schema's
  validators; with one matching expense of 250, \<open>calculateStats\<close> sets \<open>spentAmount = 250\<close>
  and \<open>percentageUsed = 125\<close>, and the resulting document no longer passes the validators,
  because the schema bounds \<open>stats.percentageUsed\<close> by \<open>max: 100\<close>.
\<close>

theorem calculateStats_over_100:
  "budgetSchema_valid (budget200 Active 0)
   \<and> spentAmount (budget.stats (calculateStats (20 * msPerDay) [250] (budget200 Active 0))) = 250
   \<and> percentageUsed (budget.stats (calculateStats (20 * msPerDay) [250] (budget200 Active 0))) = 125
   \<and> \<not> budgetSchema_valid (calculateStats (20 * msPerDay) [250] (budget200 Active 0))"
  by (simp add: calculateStats_def Let_def spent_eq budget200_def budgetSchema_valid_def)

subsection \<open>Elapsed days and average daily spend\<close>

text \<open>
  C7, as the code has it. \<open>daysElapsed\<close> is the ceiling, in days, of the absolute difference
  between \<open>now\<close> and \<open>startDate\<close>. So for every recompute at time \<open>now\<close>: \<open>daysElapsed\<close> is
  never negative, it is 0 only when \<open>now\<close> is exactly \<open>startDate\<close>, it is
  \<open>ceil((now - startDate) in days)\<close> when \<open>now\<close> is not before \<open>startDate\<close>, and when \<open>now\<close>
  is before \<open>startDate\<close> it is the positive number \<open>ceil((startDate - now) in days)\<close>.
  \<open>averageDailySpent\<close> is \<open>spentAmount / daysElapsed\<close> when \<open>daysElapsed > 0\<close> and 0
  otherwise.
\<close>

theorem daysElapsed_absolute:
  "daysElapsed now b = \<lceil>(of_int \<bar>now - startDate b\<bar> :: rat) / of_int msPerDay\<rceil>
   \<and> 0 \<le> daysElapsed now b
   \<and> (daysElapsed now b = 0) = (now = startDate b)
   \<and> (startDate b \<le> now \<longrightarrow>
        daysElapsed now b = \<lceil>(of_int (now - startDate b) :: rat) / of_int msPerDay\<rceil>)
   \<and> (now < startDate b \<longrightarrow>
        daysElapsed now b = \<lceil>(of_int (startDate b - now) :: rat) / of_int msPerDay\<rceil>
        \<and> 0 < daysElapsed now b)
   \<and> averageDailySpent (budget.stats (calculateStats now xs b))
        = (if daysElapsed now b > 0 then sum_list xs / of_int (daysElapsed now b) else 0)"
proof -
  have d: "daysElapsed now b = \<lceil>(of_int \<bar>now - startDate b\<bar> :: rat) / of_int msPerDay\<rceil>"
    by (simp add: daysElapsed_def Let_def)
  have nn: "0 \<le> daysElapsed now b" unfolding d by (rule ceiling_days_nonneg) simp
  have z: "(daysElapsed now b = 0) = (now = startDate b)"
  proof (cases "now = startDate b")
    case True
    then show ?thesis unfolding d by simp
  next
    case False
    then have "0 < \<bar>now - startDate b\<bar>" by simp
    then have "0 < daysElapsed now b" unfolding d by (rule ceiling_days_pos)
    with False show ?thesis by simp
  qed
  have ge: "startDate b \<le> now \<longrightarrow>
        daysElapsed now b = \<lceil>(of_int (now - startDate b) :: rat) / of_int msPerDay\<rceil>"
    by (simp add: d)
  have lt: "now < startDate b \<longrightarrow>
        daysElapsed now b = \<lceil>(of_int (startDate b - now) :: rat) / of_int msPerDay\<rceil>
        \<and> 0 < daysElapsed now b"
  proof
    assume a: "now < startDate b"
    then have e: "\<bar>now - startDate b\<bar> = startDate b - now" by simp
    have "0 < startDate b - now" using a by simp
    then have "0 < \<lceil>(of_int (startDate b - now) :: rat) / of_int msPerDay\<rceil>"
      by (rule ceiling_days_pos)
    then show "daysElapsed now b = \<lceil>(of_int (startDate b - now) :: rat) / of_int msPerDay\<rceil>
        \<and> 0 < daysElapsed now b" unfolding d e by simp
  qed
  have avg: "averageDailySpent (budget.stats (calculateStats now xs b))
        = (if daysElapsed now b > 0 then sum_list xs / of_int (daysElapsed now b) else 0)"
    by (simp add: calculateStats_def Let_def spent_eq)
  from d nn z ge lt avg show ?thesis by blast
qed

text \<open>
  C7, witness: the budget starts on day 10. One millisecond after the start one day has
  elapsed; one millisecond more than a day before the start, \<open>daysElapsed\<close> is 2 and an
  expense of 50 gives an average of 25.
\<close>

theorem daysElapsed_absolute_witness:
  "startDate (budget200 Active 0) \<le> 10 * msPerDay + 1
   \<and> daysElapsed (10 * msPerDay + 1) (budget200 Active 0) = 1
   \<and> 9 * msPerDay - 1 < startDate (budget200 Active 0)
   \<and> daysElapsed (9 * msPerDay - 1) (budget200 Active 0) = 2
   \<and> averageDailySpent (budget.stats (calculateStats (9 * msPerDay - 1) [50] (budget200 Active 0))) = 25"
proof -
  have a1: "startDate (budget200 Active 0) \<le> 10 * msPerDay + 1" by code_simp
  have a2: "9 * msPerDay - 1 < startDate (budget200 Active 0)" by code_simp
  have v1: "\<lceil>(of_int (10 * msPerDay + 1 - startDate (budget200 Active 0)) :: rat) / of_int msPerDay\<rceil> = 1"
    by code_simp
  have v2: "\<lceil>(of_int (startDate (budget200 Active 0) - (9 * msPerDay - 1)) :: rat) / of_int msPerDay\<rceil> = 2"
    by code_simp
  have d1: "daysElapsed (10 * msPerDay + 1) (budget200 Active 0) = 1"
    using daysElapsed_absolute [of "10 * msPerDay + 1" "budget200 Active 0" "[50]"] a1 v1 by simp
  have d2: "daysElapsed (9 * msPerDay - 1) (budget200 Active 0) = 2"
    using daysElapsed_absolute [of "9 * msPerDay - 1" "budget200 Active 0" "[50]"] a2 v2 by simp
  have avg: "averageDailySpent (budget.stats (calculateStats (9 * msPerDay - 1) [50] (budget200 Active 0))) = 25"
    using daysElapsed_absolute [of "9 * msPerDay - 1" "budget200 Active 0" "[50]"] d2 by simp
  from a1 d1 a2 d2 avg show ?thesis by blast
qed

text \<open>
  C7, counterexample to the claim as stated: one day before the start date \<open>daysElapsed\<close>
  is 1, not 0, and the average daily spend of an expense of 50 is 50, not 0.
\<close>

theorem daysElapsed_before_start_counterexample:
  "9 * msPerDay < startDate (budget200 Active 0)
   \<and> daysElapsed (9 * msPerDay) (budget200 Active 0) = 1
   \<and> averageDailySpent (budget.stats (calculateStats (9 * msPerDay) [50] (budget200 Active 0))) = 50"
  by code_simp

section \<open>Properties of the expense split\<close>

lemma calculateNextOccurrence_splitAmounts:
  "splitAmounts (calculateNextOccurrence e) = splitAmounts e"
  by (simp add: calculateNextOccurrence_def Let_def split: option.splits)

lemma pre_save_splitAmounts:
  "splitAmounts (expense_pre_save e) = splitAmounts (equalSplit e)"
  by (simp add: expense_pre_save_def Let_def calculateNextOccurrence_splitAmounts)

lemma sum_equal_shares:
  "sum_list (map split_amount.amount (equal_shares ps b)) = of_nat (length ps) * b"
  unfolding equal_shares_def by (induction ps) (simp_all add: algebra_simps)

lemma equal_shares_same:
  "map split_amount.userId (equal_shares ps b) = ps
   \<and> list_all (\<lambda>s. split_amount.amount s = b) (equal_shares ps b)"
  unfolding equal_shares_def by (induction ps) simp_all

subsection \<open>Equal split\<close>

text \<open>
  C1, as the code has it. For every amount and every non-empty participant list of a group
  expense without explicit amounts, the save hook assigns one and the same share to each
  participant, in participant order: \<open>Math.round(amount / count * 100) / 100\<close> as the
  code's double arithmetic computes it. Nothing is redistributed afterwards, so the
  amounts sum to \<open>count\<close> times that share, whether or not that is the input amount. A
  document that passes the schema's validators is saved with these shares.
\<close>

theorem equal_split_shares:
  assumes "type e = Group" and "splitBetween e = Some ps" and "ps \<noteq> []"
    and "splitAmounts e = None \<or> splitAmounts e = Some []"
  shows "splitAmounts (expense_pre_save e)
           = Some (equal_shares ps
               (double_of (of_int (Math_round (double_of
                  (double_of (expense.amount e / of_nat (length ps)) * 100))) / 100)))
     \<and> splitTotal (expense_pre_save e)
           = of_nat (length ps)
             * double_of (of_int (Math_round (double_of
                  (double_of (expense.amount e / of_nat (length ps)) * 100))) / 100)
     \<and> (expenseSchema_valid e \<longrightarrow> expense_save e = Inr (expense_pre_save e))"
proof -
  let ?b = "double_of (of_int (Math_round (double_of
                  (double_of (expense.amount e / of_nat (length ps)) * 100))) / 100)"
  have "splitAmounts (equalSplit e) = Some (equal_shares ps ?b)"
    using assms by (auto simp: equalSplit_def Let_def equal_shares_def)
  then have sa: "splitAmounts (expense_pre_save e) = Some (equal_shares ps ?b)"
    by (simp only: pre_save_splitAmounts)
  have total: "splitTotal (expense_pre_save e) = of_nat (length ps) * ?b"
    by (simp only: splitTotal_def sa option.case sum_equal_shares)
  have "expenseSchema_valid e \<longrightarrow> expense_save e = Inr (expense_pre_save e)"
    by (simp add: expense_save_def)
  with sa total show ?thesis by blast
qed

text \<open>
  C1, witness: 100.00 among three participants gives three shares of 33.33; 10.03 between
  two gives two shares of 5.01, because the doubles \<open>10.03 / 2 * 100\<close> come to just under
  501.5.
\<close>

theorem equal_split_shares_witness:
  "type (expense100 None) = Group
   \<and> splitBetween (expense100 None) = Some [''a'', ''b'', ''c'']
   \<and> splitAmounts (expense100 None) = None
   \<and> splitAmounts (expense_pre_save (expense100 None))
        = Some (equal_shares [''a'', ''b'', ''c''] (double_of (3333 / 100)))
   \<and> type (expense1003 None) = Group
   \<and> splitBetween (expense1003 None) = Some [''a'', ''b'']
   \<and> splitAmounts (expense1003 None) = None
   \<and> splitAmounts (expense_pre_save (expense1003 None))
        = Some (equal_shares [''a'', ''b''] (double_of (501 / 100)))"
proof -
  have h1: "type (expense100 None) = Group" by (simp add: expense100_def)
  have h2: "splitBetween (expense100 None) = Some [''a'', ''b'', ''c'']" by (simp add: expense100_def)
  have h3: "[''a'', ''b'', ''c''] \<noteq> []" by simp
  have h4: "splitAmounts (expense100 None) = None \<or> splitAmounts (expense100 None) = Some []"
    by (simp add: expense100_def)
  have r: "double_of (of_int (Math_round (double_of (double_of (expense.amount (expense100 None)
               / of_nat (length [''a'', ''b'', ''c''])) * 100))) / 100) = double_of (3333 / 100)"
    by code_simp
  have k1: "type (expense1003 None) = Group" by (simp add: expense1003_def)
  have k2: "splitBetween (expense1003 None) = Some [''a'', ''b'']" by (simp add: expense1003_def)
  have k3: "[''a'', ''b''] \<noteq> []" by simp
  have k4: "splitAmounts (expense1003 None) = None \<or> splitAmounts (expense1003 None) = Some []"
    by (simp add: expense1003_def)
  have s: "double_of (of_int (Math_round (double_of (double_of (expense.amount (expense1003 None)
               / of_nat (length [''a'', ''b''])) * 100))) / 100) = double_of (501 / 100)"
    by code_simp
  have a: "splitAmounts (expense_pre_save (expense100 None))
        = Some (equal_shares [''a'', ''b'', ''c''] (double_of (3333 / 100)))"
    using equal_split_shares [OF h1 h2 h3 h4] unfolding r by blast
  have b: "splitAmounts (expense_pre_save (expense1003 None))
        = Some (equal_shares [''a'', ''b''] (double_of (501 / 100)))"
    using equal_split_shares [OF k1 k2 k3 k4] unfolding s by blast
  from h1 h2 k1 k2 a b show ?thesis by (simp add: expense100_def expense1003_def)
qed

text \<open>
  C1, counterexample to the claim as stated: for 100.00 and the three distinct participants
  \<open>a\<close>, \<open>b\<close>, \<open>c\<close> the save stores 33.33 for each; no participant receives the remaining
  hundredth, and the shares sum to less than 99.995, not to 100.00.
\<close>

theorem equal_split_drift_counterexample:
  "type (expense100 None) = Group
   \<and> splitBetween (expense100 None) = Some [''a'', ''b'', ''c'']
   \<and> distinct [''a'', ''b'', ''c'']
   \<and> splitAmounts (expense100 None) = None
   \<and> expense_save (expense100 None)
        = Inr (expense100 (Some (equal_shares [''a'', ''b'', ''c''] (double_of (3333 / 100)))))
   \<and> splitTotal (expense100 (Some (equal_shares [''a'', ''b'', ''c''] (double_of (3333 / 100)))))
        \<noteq> expense.amount (expense100 None)
   \<and> splitTotal (expense100 (Some (equal_shares [''a'', ''b'', ''c''] (double_of (3333 / 100)))))
        < 100 - 1 / 200"
  by code_simp

subsection \<open>Custom split\<close>

text \<open>
  C4, as the code has it. Whenever the caller supplies explicit (non-empty) per-participant
  amounts, the save leaves them unmodified and never compares their sum with the expense
  amount. A document that passes the schema's validators is saved with the supplied
  amounts, and stays so whatever valid expense amount it carries; a document is refused
  only by those validators, with a \<open>ValidationError\<close>.
\<close>

theorem custom_split_unvalidated:
  assumes "splitAmounts e = Some sa" and "sa \<noteq> []"
  shows "(expenseSchema_valid e \<longrightarrow>
            expense_save e = Inr (expense_pre_save e)
            \<and> splitAmounts (expense_pre_save e) = Some sa)
     \<and> (\<not> expenseSchema_valid e \<longrightarrow> expense_save e = Inl ValidationError)
     \<and> (\<forall>a. expenseSchema_valid e \<and> double_of (1 / 100) \<le> a \<and> a \<le> double_of (99999999999 / 100)
            \<longrightarrow> expense_save (e\<lparr>expense.amount := a\<rparr>) = Inr (expense_pre_save (e\<lparr>expense.amount := a\<rparr>))
              \<and> splitAmounts (expense_pre_save (e\<lparr>expense.amount := a\<rparr>)) = Some sa)"
proof -
  have keep: "splitAmounts (expense_pre_save x) = Some sa" if "splitAmounts x = Some sa" for x
  proof -
    have "splitAmounts (equalSplit x) = Some sa"
      using that assms(2) by (simp add: equalSplit_def split: option.splits)
    then show ?thesis by (simp only: pre_save_splitAmounts)
  qed
  have valid: "expenseSchema_valid (e\<lparr>expense.amount := a\<rparr>)"
    if "expenseSchema_valid e" "double_of (1 / 100) \<le> a" "a \<le> double_of (99999999999 / 100)" for a
    using that by (simp add: expenseSchema_valid_def)
  show ?thesis
    using keep [of e] keep [of "e\<lparr>expense.amount := a\<rparr>" for a] valid assms(1)
    by (simp add: expense_save_def)
qed

text \<open>
  C4, witness: the expense of 100.00 with the explicit amounts 10, 20 and 30 is saved as
  it is; with the amounts -10, 50 and 60, which do sum to 100, it is refused, because a
  split amount is below the schema's minimum of 0.
\<close>

theorem custom_split_unvalidated_witness:
  "splitAmounts (expense100 (Some custom60)) = Some custom60
   \<and> custom60 \<noteq> []
   \<and> expenseSchema_valid (expense100 (Some custom60))
   \<and> expense_save (expense100 (Some custom60)) = Inr (expense_pre_save (expense100 (Some custom60)))
   \<and> splitAmounts (expense_pre_save (expense100 (Some custom60))) = Some custom60
   \<and> splitAmounts (expense100 (Some custom_negative)) = Some custom_negative
   \<and> custom_negative \<noteq> []
   \<and> splitTotal (expense100 (Some custom_negative)) = expense.amount (expense100 (Some custom_negative))
   \<and> \<not> expenseSchema_valid (expense100 (Some custom_negative))
   \<and> expense_save (expense100 (Some custom_negative)) = Inl ValidationError"
proof -
  have h1: "splitAmounts (expense100 (Some custom60)) = Some custom60" by (simp add: expense100_def)
  have h2: "custom60 \<noteq> []" by (simp add: custom60_def)
  have v: "expenseSchema_valid (expense100 (Some custom60))" by code_simp
  have k1: "splitAmounts (expense100 (Some custom_negative)) = Some custom_negative"
    by (simp add: expense100_def)
  have k2: "custom_negative \<noteq> []" by (simp add: custom_negative_def)
  have t: "splitTotal (expense100 (Some custom_negative)) = expense.amount (expense100 (Some custom_negative))"
    by code_simp
  have n: "\<not> expenseSchema_valid (expense100 (Some custom_negative))" by code_simp
  from custom_split_unvalidated [OF h1 h2] custom_split_unvalidated [OF k1 k2] h1 h2 v k1 k2 t n
  show ?thesis by blast
qed

text \<open>
  C4, counterexample to the claim as stated: the explicit amounts sum to 60 while the
  expense amount is 100, and the save succeeds with the document unchanged instead of
  signalling a mismatch.
\<close>

theorem custom_split_mismatch_counterexample:
  "splitAmounts (expense100 (Some custom60)) = Some custom60
   \<and> splitTotal (expense100 (Some custom60)) = 60
   \<and> expense.amount (expense100 (Some custom60)) = 100
   \<and> expense_save (expense100 (Some custom60)) = Inr (expense100 (Some custom60))"
  by code_simp

section \<open>Properties of the recurrence\<close>

subsection \<open>Years, months and days\<close>

lemma div_succ:
  "0 < n \<Longrightarrow> (x + 1) div n = x div n + (if (x + 1) mod n = 0 then 1 else 0)" for x n :: int
proof -
  assume n: "0 < n"
  have x: "x = n * (x div n) + x mod n" by simp
  have r: "0 \<le> x mod n" "x mod n < n" using n by simp_all
  show ?thesis
  proof (cases "x mod n + 1 = n")
    case True
    have e: "x + 1 = n * (x div n + 1) + 0"
    proof -
      have "x + 1 = n * (x div n) + (x mod n + 1)" using x by linarith
      also have "\<dots> = n * (x div n) + n" using True by simp
      also have "\<dots> = n * (x div n + 1) + 0" by (simp add: algebra_simps)
      finally show ?thesis .
    qed
    have "(x + 1) div n = x div n + 1" by (rule int_div_pos_eq [OF e]) (use n in simp_all)
    moreover have "(x + 1) mod n = 0" by (rule int_mod_pos_eq [OF e]) (use n in simp_all)
    ultimately show ?thesis by simp
  next
    case False
    then have lt: "x mod n + 1 < n" using r by linarith
    have e: "x + 1 = n * (x div n) + (x mod n + 1)" using x by linarith
    have nn: "0 \<le> x mod n + 1" using r by linarith
    have "(x + 1) div n = x div n" by (rule int_div_pos_eq [OF e nn lt])
    moreover have "(x + 1) mod n = x mod n + 1" by (rule int_mod_pos_eq [OF e nn lt])
    ultimately show ?thesis using r by simp
  qed
qed

lemma mod_shift: "(y - n * k) mod n = y mod n" for y n k :: int
proof -
  have "(y + (- k) * n) mod n = y mod n" by (rule mod_mult_self1)
  then show ?thesis by (simp add: algebra_simps)
qed

lemma DayFromYear_step: "DayFromYear (y + 1) = DayFromYear y + DaysInYear y"
proof -
  have a: "(y + 1 - 1969) div 4 = (y - 1969) div 4 + (if y mod 4 = 0 then 1 else 0)"
  proof -
    have "(y - 1969 + 1) div 4 = (y - 1969) div 4 + (if (y - 1969 + 1) mod 4 = 0 then 1 else 0)"
      by (rule div_succ) simp
    moreover have "(y - 1969 + 1) mod 4 = (y - 4 * 492) mod 4" by simp
    moreover have "(y - 4 * 492) mod 4 = y mod 4" by (rule mod_shift)
    moreover have "y + 1 - 1969 = y - 1969 + 1" by simp
    ultimately show ?thesis by simp
  qed
  have b: "(y + 1 - 1901) div 100 = (y - 1901) div 100 + (if y mod 100 = 0 then 1 else 0)"
  proof -
    have "(y - 1901 + 1) div 100 = (y - 1901) div 100 + (if (y - 1901 + 1) mod 100 = 0 then 1 else 0)"
      by (rule div_succ) simp
    moreover have "(y - 1901 + 1) mod 100 = (y - 100 * 19) mod 100" by simp
    moreover have "(y - 100 * 19) mod 100 = y mod 100" by (rule mod_shift)
    moreover have "y + 1 - 1901 = y - 1901 + 1" by simp
    ultimately show ?thesis by simp
  qed
  have c: "(y + 1 - 1601) div 400 = (y - 1601) div 400 + (if y mod 400 = 0 then 1 else 0)"
  proof -
    have "(y - 1601 + 1) div 400 = (y - 1601) div 400 + (if (y - 1601 + 1) mod 400 = 0 then 1 else 0)"
      by (rule div_succ) simp
    moreover have "(y - 1601 + 1) mod 400 = (y - 400 * 4) mod 400" by simp
    moreover have "(y - 400 * 4) mod 400 = y mod 400" by (rule mod_shift)
    moreover have "y + 1 - 1601 = y - 1601 + 1" by simp
    ultimately show ?thesis by simp
  qed
  have d1: "y mod 100 = 0 \<Longrightarrow> y mod 4 = 0"
  proof -
    assume "y mod 100 = 0"
    then have "100 dvd y" by (simp add: mod_eq_0_iff_dvd)
    moreover have "(4::int) dvd 100" by simp
    ultimately have "4 dvd y" by (rule dvd_trans [rotated])
    then show ?thesis by (simp add: mod_eq_0_iff_dvd)
  qed
  have d2: "y mod 400 = 0 \<Longrightarrow> y mod 100 = 0"
  proof -
    assume "y mod 400 = 0"
    then have "400 dvd y" by (simp add: mod_eq_0_iff_dvd)
    moreover have "(100::int) dvd 400" by simp
    ultimately have "100 dvd y" by (rule dvd_trans [rotated])
    then show ?thesis by (simp add: mod_eq_0_iff_dvd)
  qed
  show ?thesis
    unfolding DayFromYear_def DaysInYear_def a b c using d1 d2 by auto
qed

lemma DaysInYear_cases: "DaysInYear y = 365 \<or> DaysInYear y = 366"
  by (simp add: DaysInYear_def)

lemma DayFromYear_less: "DayFromYear y < DayFromYear (y + 1)"
  using DayFromYear_step [of y] DaysInYear_cases [of y] by linarith

lemma DayFromYear_mono: "y \<le> z \<Longrightarrow> DayFromYear y \<le> DayFromYear z"
proof (induction z rule: int_ge_induct)
  case base
  show ?case by simp
next
  case (step i)
  then show ?case using DayFromYear_less [of i] by linarith
qed

lemma year_down_le: "DayFromYear (year_down y d) \<le> d"
proof (induction y d rule: year_down.induct)
  case (1 y d)
  show ?case
  proof (cases "d < DayFromYear y")
    case True
    with "1" show ?thesis by simp
  next
    case False
    then show ?thesis by simp
  qed
qed

lemma year_up_bounds:
  "DayFromYear y \<le> d \<Longrightarrow>
     DayFromYear (year_up y d) \<le> d \<and> d < DayFromYear (year_up y d + 1)"
proof (induction y d rule: year_up.induct)
  case (1 y d)
  show ?case
  proof (cases "DayFromYear (y + 1) \<le> d")
    case True
    with "1" show ?thesis by simp
  next
    case False
    with "1.prems" show ?thesis by simp
  qed
qed

lemma YearFromDay_bounds:
  "DayFromYear (YearFromDay d) \<le> d \<and> d < DayFromYear (YearFromDay d + 1)"
  unfolding YearFromDay_def by (rule year_up_bounds) (rule year_down_le)

lemma YearFromDay_unique:
  assumes "DayFromYear y \<le> d" and "d < DayFromYear (y + 1)"
  shows "YearFromDay d = y"
proof (rule ccontr)
  assume ne: "YearFromDay d \<noteq> y"
  let ?r = "YearFromDay d"
  have b: "DayFromYear ?r \<le> d" "d < DayFromYear (?r + 1)"
    using YearFromDay_bounds [of d] by simp_all
  show False
  proof (cases "?r < y")
    case True
    then have "DayFromYear (?r + 1) \<le> DayFromYear y" by (intro DayFromYear_mono) simp
    with b assms show False by linarith
  next
    case False
    with ne have "y + 1 \<le> ?r" by simp
    then have "DayFromYear (y + 1) \<le> DayFromYear ?r" by (rule DayFromYear_mono)
    with b assms show False by linarith
  qed
qed

lemma msPerDay_pos: "0 < msPerDay"
  by (simp add: msPerDay_def)

lemma Day_MakeDate:
  assumes "0 \<le> tod" and "tod < msPerDay"
  shows "Day (MakeDate day tod) = day" and "TimeWithinDay (MakeDate day tod) = tod"
proof -
  have e: "MakeDate day tod = msPerDay * day + tod" by (simp add: MakeDate_def)
  show "Day (MakeDate day tod) = day"
    unfolding Day_def by (rule int_div_pos_eq [OF e assms])
  show "TimeWithinDay (MakeDate day tod) = tod"
    unfolding TimeWithinDay_def by (rule int_mod_pos_eq [OF e assms])
qed

lemma TimeWithinDay_range: "0 \<le> TimeWithinDay t \<and> TimeWithinDay t < msPerDay"
  using msPerDay_pos by (simp add: TimeWithinDay_def)

lemma MakeDate_Day: "MakeDate (Day t) (TimeWithinDay t) = t"
  by (simp add: MakeDate_def Day_def TimeWithinDay_def)

lemma leap_cases: "(if DaysInYear y = 366 then 1 else 0) = DaysInYear y - (365::int)"
  using DaysInYear_cases [of y] by auto

lemma InLeapYear_eq: "InLeapYear t = DaysInYear (YearFromTime t) - 365"
  unfolding InLeapYear_def by (rule leap_cases)

lemma DayWithinYear_range:
  "0 \<le> DayWithinYear t \<and> DayWithinYear t < 365 + InLeapYear t"
  using YearFromDay_bounds [of "Day t"] DayFromYear_step [of "YearFromTime t"]
  by (simp add: DayWithinYear_def YearFromTime_def InLeapYear_eq)

lemma month_table:
  fixes d l :: int
  assumes "0 \<le> d" and "d < 365 + l" and "l = 0 \<or> l = 1"
  defines "m \<equiv> (if d < 31 then 0 else if d < 59 + l then 1 else if d < 90 + l then 2
      else if d < 120 + l then 3 else if d < 151 + l then 4 else if d < 181 + l then 5
      else if d < 212 + l then 6 else if d < 243 + l then 7 else if d < 273 + l then 8
      else if d < 304 + l then 9 else if d < 334 + l then 10 else (11::int))"
  shows "0 \<le> m \<and> m < 12 \<and> monthStart l m \<le> d
     \<and> d < monthStart l m + (if m = 1 then 28 + l else if m = 3 \<or> m = 5 \<or> m = 8 \<or> m = 10 then 30 else 31)"
  using assms(1-3) unfolding m_def monthStart_def by auto

lemma DaysInMonth_leap:
  "DaysInMonth y m = (if m = 1 then 28 + (DaysInYear y - 365)
      else if m = 3 \<or> m = 5 \<or> m = 8 \<or> m = 10 then 30 else 31)"
  using DaysInYear_cases [of y] by (auto simp: DaysInMonth_def)

lemma MakeDay_in_range:
  "0 \<le> m \<Longrightarrow> m < 12 \<Longrightarrow>
     MakeDay y m dt = DayFromYear y + monthStart (DaysInYear y - 365) m + dt - 1"
  by (simp add: MakeDay_def Let_def leap_cases)

lemma month_enum:
  "0 \<le> m \<Longrightarrow> m < 12 \<Longrightarrow>
     m = 0 \<or> m = 1 \<or> m = 2 \<or> m = 3 \<or> m = 4 \<or> m = 5 \<or> m = 6 \<or> m = 7 \<or> m = 8 \<or> m = 9
     \<or> m = 10 \<or> m = 11" for m :: int
  by arith

lemma MonthFromTime_table:
  "MonthFromTime t = (if DayWithinYear t < 31 then 0
      else if DayWithinYear t < 59 + InLeapYear t then 1
      else if DayWithinYear t < 90 + InLeapYear t then 2
      else if DayWithinYear t < 120 + InLeapYear t then 3
      else if DayWithinYear t < 151 + InLeapYear t then 4
      else if DayWithinYear t < 181 + InLeapYear t then 5
      else if DayWithinYear t < 212 + InLeapYear t then 6
      else if DayWithinYear t < 243 + InLeapYear t then 7
      else if DayWithinYear t < 273 + InLeapYear t then 8
      else if DayWithinYear t < 304 + InLeapYear t then 9
      else if DayWithinYear t < 334 + InLeapYear t then 10 else 11)"
  by (simp only: MonthFromTime_def Let_def)

lemma MonthFromTime_facts:
  "0 \<le> MonthFromTime t \<and> MonthFromTime t < 12
     \<and> monthStart (InLeapYear t) (MonthFromTime t) \<le> DayWithinYear t
     \<and> DayWithinYear t < monthStart (InLeapYear t) (MonthFromTime t)
          + (if MonthFromTime t = 1 then 28 + InLeapYear t
             else if MonthFromTime t = 3 \<or> MonthFromTime t = 5 \<or> MonthFromTime t = 8
                     \<or> MonthFromTime t = 10 then 30 else 31)"
proof -
  have l: "InLeapYear t = 0 \<or> InLeapYear t = 1" by (simp add: InLeapYear_def)
  have r: "0 \<le> DayWithinYear t" "DayWithinYear t < 365 + InLeapYear t"
    using DayWithinYear_range [of t] by simp_all
  show ?thesis by (rule month_table [OF r l, folded MonthFromTime_table])
qed

lemma DateFromTime_eq:
  "DateFromTime t = DayWithinYear t - monthStart (InLeapYear t) (MonthFromTime t) + 1"
proof -
  have "0 \<le> MonthFromTime t" "MonthFromTime t < 12" using MonthFromTime_facts [of t] by simp_all
  then have "MonthFromTime t = 0 \<or> MonthFromTime t = 1 \<or> MonthFromTime t = 2
     \<or> MonthFromTime t = 3 \<or> MonthFromTime t = 4 \<or> MonthFromTime t = 5
     \<or> MonthFromTime t = 6 \<or> MonthFromTime t = 7 \<or> MonthFromTime t = 8
     \<or> MonthFromTime t = 9 \<or> MonthFromTime t = 10 \<or> MonthFromTime t = 11"
    by (rule month_enum)
  then show ?thesis
    unfolding DateFromTime_def Let_def monthStart_def by auto
qed

lemma components_valid:
  "0 \<le> MonthFromTime t \<and> MonthFromTime t < 12
   \<and> 1 \<le> DateFromTime t \<and> DateFromTime t \<le> DaysInMonth (YearFromTime t) (MonthFromTime t)
   \<and> Day t = MakeDay (YearFromTime t) (MonthFromTime t) (DateFromTime t)"
proof -
  have dim: "DaysInMonth (YearFromTime t) (MonthFromTime t)
      = (if MonthFromTime t = 1 then 28 + InLeapYear t
         else if MonthFromTime t = 3 \<or> MonthFromTime t = 5 \<or> MonthFromTime t = 8
                 \<or> MonthFromTime t = 10 then 30 else 31)"
    unfolding DaysInMonth_leap InLeapYear_eq by (rule refl)
  have m: "0 \<le> MonthFromTime t \<and> MonthFromTime t < 12
     \<and> monthStart (InLeapYear t) (MonthFromTime t) \<le> DayWithinYear t
     \<and> DayWithinYear t < monthStart (InLeapYear t) (MonthFromTime t)
          + DaysInMonth (YearFromTime t) (MonthFromTime t)"
    unfolding dim by (rule MonthFromTime_facts)
  have "Day t = DayFromYear (YearFromTime t) + DayWithinYear t" by (simp add: DayWithinYear_def)
  with m show ?thesis
    by (simp add: DateFromTime_eq MakeDay_in_range InLeapYear_eq)
qed

lemma monthStart_bounds:
  assumes "0 \<le> m" and "m < 12" and "1 \<le> dt" and "dt \<le> DaysInMonth y m"
  shows "0 \<le> monthStart (DaysInYear y - 365) m + dt - 1
     \<and> monthStart (DaysInYear y - 365) m + dt - 1 < DaysInYear y"
proof -
  have "m = 0 \<or> m = 1 \<or> m = 2 \<or> m = 3 \<or> m = 4 \<or> m = 5 \<or> m = 6 \<or> m = 7 \<or> m = 8 \<or> m = 9
     \<or> m = 10 \<or> m = 11" using assms(1,2) by (rule month_enum)
  then show ?thesis
    using assms(3,4) DaysInYear_cases [of y]
    unfolding DaysInMonth_leap monthStart_def by auto
qed

lemma civil_roundtrip:
  assumes "0 \<le> m" and "m < 12" and "1 \<le> dt" and "dt \<le> DaysInMonth y m"
    and "0 \<le> tod" and "tod < msPerDay"
  shows "YearFromTime (MakeDate (MakeDay y m dt) tod) = y
     \<and> MonthFromTime (MakeDate (MakeDay y m dt) tod) = m
     \<and> DateFromTime (MakeDate (MakeDay y m dt) tod) = dt
     \<and> TimeWithinDay (MakeDate (MakeDay y m dt) tod) = tod"
proof -
  let ?t = "MakeDate (MakeDay y m dt) tod"
  let ?l = "DaysInYear y - 365"
  let ?d = "monthStart ?l m + dt - 1"
  have day: "Day ?t = DayFromYear y + ?d"
    using Day_MakeDate(1) [OF assms(5,6)] MakeDay_in_range [OF assms(1,2)] by simp
  have tod: "TimeWithinDay ?t = tod" by (rule Day_MakeDate(2) [OF assms(5,6)])
  have b: "0 \<le> ?d" "?d < DaysInYear y" using monthStart_bounds [OF assms(1-4)] by simp_all
  have yr: "YearFromTime ?t = y"
    unfolding YearFromTime_def day
    by (rule YearFromDay_unique) (use b DayFromYear_step [of y] in simp_all)
  have dwy: "DayWithinYear ?t = ?d" by (simp add: DayWithinYear_def yr day)
  have leap: "InLeapYear ?t = ?l" by (simp add: InLeapYear_eq yr)
  have mc: "m = 0 \<or> m = 1 \<or> m = 2 \<or> m = 3 \<or> m = 4 \<or> m = 5 \<or> m = 6 \<or> m = 7 \<or> m = 8
     \<or> m = 9 \<or> m = 10 \<or> m = 11" using assms(1,2) by (rule month_enum)
  have mo: "MonthFromTime ?t = m"
    unfolding MonthFromTime_def Let_def dwy leap
    using mc assms(3,4) DaysInYear_cases [of y]
    unfolding DaysInMonth_leap monthStart_def by auto
  have dte: "DateFromTime ?t = dt" by (simp add: DateFromTime_eq dwy leap mo)
  from yr mo dte tod show ?thesis by simp
qed

lemma MakeDay_normalise: "MakeDay y mo dt = MakeDay (y + mo div 12) (mo mod 12) dt"
  by (simp add: MakeDay_def Let_def)

lemma DaysInMonth_bounds: "28 \<le> DaysInMonth y m \<and> DaysInMonth y m \<le> 31"
  by (simp add: DaysInMonth_def)

lemma MakeDay_carry:
  assumes "0 \<le> m" and "m < 12"
  shows "MakeDay y m dt = MakeDay y (m + 1) (dt - DaysInMonth y m)"
proof (cases "m = 11")
  case True
  have "MakeDay y 12 (dt - DaysInMonth y 11) = DayFromYear (y + 1) + (dt - 31) - 1"
    by (simp add: MakeDay_def Let_def monthStart_def DaysInMonth_def)
  moreover have "MakeDay y 11 dt = DayFromYear y + (334 + (DaysInYear y - 365)) + dt - 1"
    by (simp add: MakeDay_in_range monthStart_def)
  ultimately show ?thesis using True DayFromYear_step [of y] by simp
next
  case False
  with assms have r: "0 \<le> m + 1" "m + 1 < 12" by simp_all
  have "m = 0 \<or> m = 1 \<or> m = 2 \<or> m = 3 \<or> m = 4 \<or> m = 5 \<or> m = 6 \<or> m = 7 \<or> m = 8 \<or> m = 9
     \<or> m = 10 \<or> m = 11" using assms by (rule month_enum)
  with False have "monthStart (DaysInYear y - 365) (m + 1)
      = monthStart (DaysInYear y - 365) m + DaysInMonth y m"
    unfolding DaysInMonth_leap monthStart_def by auto
  then show ?thesis
    by (simp add: MakeDay_in_range [OF assms] MakeDay_in_range [OF r])
qed

lemma nextDate_Monthly:
  "nextDate Monthly k t
     = MakeDate (MakeDay (getFullYear t + (getMonth t + k) div 12) ((getMonth t + k) mod 12)
                   (getDate t)) (TimeWithinDay t)"
  unfolding nextDate_def setMonth_def getFullYear_def getMonth_def getDate_def
  using MakeDay_normalise [of "YearFromTime t" "MonthFromTime t + k" "DateFromTime t"]
  by simp

subsection \<open>Monthly advancement\<close>

text \<open>
  C3, as the code has it. \<open>setMonth(getMonth() + interval)\<close> keeps the anchor's day of the
  month and time of day and counts the day from the first day of the month that lies
  \<open>interval\<close> calendar months later. So for every anchor date and every monthly
  recurrence: when the anchor's day of the month exists in the target month, the next
  occurrence is that day of the target month (the anchor plus \<open>interval\<close> calendar
  months); when the target month is shorter, the date is not clamped to the end of the
  month but runs over into the following month by the excess days.
\<close>

theorem monthly_advance_overflows:
  "TimeWithinDay (nextDate Monthly k t) = TimeWithinDay t
   \<and> (getDate t \<le> DaysInMonth (getFullYear t + (getMonth t + k) div 12) ((getMonth t + k) mod 12)
       \<longrightarrow> getFullYear (nextDate Monthly k t) = getFullYear t + (getMonth t + k) div 12
         \<and> getMonth (nextDate Monthly k t) = (getMonth t + k) mod 12
         \<and> getDate (nextDate Monthly k t) = getDate t)
   \<and> (DaysInMonth (getFullYear t + (getMonth t + k) div 12) ((getMonth t + k) mod 12) < getDate t
       \<longrightarrow> getFullYear (nextDate Monthly k t)
             = getFullYear t + (getMonth t + k) div 12 + ((getMonth t + k) mod 12 + 1) div 12
         \<and> getMonth (nextDate Monthly k t) = ((getMonth t + k) mod 12 + 1) mod 12
         \<and> getDate (nextDate Monthly k t)
             = getDate t - DaysInMonth (getFullYear t + (getMonth t + k) div 12)
                                        ((getMonth t + k) mod 12))"
proof -
  let ?y = "getFullYear t + (getMonth t + k) div 12"
  let ?m = "(getMonth t + k) mod 12"
  let ?dt = "getDate t"
  let ?tod = "TimeWithinDay t"
  let ?r = "nextDate Monthly k t"
  have r: "?r = MakeDate (MakeDay ?y ?m ?dt) ?tod" by (rule nextDate_Monthly)
  have tod: "0 \<le> ?tod" "?tod < msPerDay" using TimeWithinDay_range [of t] by simp_all
  have m: "0 \<le> ?m" "?m < 12" by simp_all
  have dt: "1 \<le> ?dt" "?dt \<le> 31"
    using components_valid [of t] DaysInMonth_bounds [of "YearFromTime t" "MonthFromTime t"]
    by (simp_all add: getDate_def)
  have keep: "TimeWithinDay ?r = ?tod" unfolding r by (rule Day_MakeDate(2) [OF tod])
  have fits: "?dt \<le> DaysInMonth ?y ?m \<longrightarrow>
      getFullYear ?r = ?y \<and> getMonth ?r = ?m \<and> getDate ?r = ?dt"
  proof
    assume "?dt \<le> DaysInMonth ?y ?m"
    from civil_roundtrip [OF m dt(1) this tod]
    show "getFullYear ?r = ?y \<and> getMonth ?r = ?m \<and> getDate ?r = ?dt"
      unfolding r getFullYear_def getMonth_def getDate_def by simp
  qed
  have over: "DaysInMonth ?y ?m < ?dt \<longrightarrow>
      getFullYear ?r = ?y + (?m + 1) div 12 \<and> getMonth ?r = (?m + 1) mod 12
      \<and> getDate ?r = ?dt - DaysInMonth ?y ?m"
  proof
    assume a: "DaysInMonth ?y ?m < ?dt"
    let ?y2 = "?y + (?m + 1) div 12"
    let ?m2 = "(?m + 1) mod 12"
    let ?d2 = "?dt - DaysInMonth ?y ?m"
    have "MakeDay ?y ?m ?dt = MakeDay ?y (?m + 1) ?d2" by (rule MakeDay_carry [OF m])
    also have "\<dots> = MakeDay ?y2 ?m2 ?d2" by (rule MakeDay_normalise)
    finally have r2: "?r = MakeDate (MakeDay ?y2 ?m2 ?d2) ?tod" unfolding r by simp
    have m2: "0 \<le> ?m2" "?m2 < 12" by simp_all
    have d2: "1 \<le> ?d2" "?d2 \<le> DaysInMonth ?y2 ?m2"
      using a dt DaysInMonth_bounds [of ?y ?m] DaysInMonth_bounds [of ?y2 ?m2] by linarith+
    from civil_roundtrip [OF m2 d2 tod]
    show "getFullYear ?r = ?y2 \<and> getMonth ?r = ?m2 \<and> getDate ?r = ?d2"
      unfolding r2 getFullYear_def getMonth_def getDate_def by simp
  qed
  from keep fits over show ?thesis by blast
qed

text \<open>
  C3, witness: from 2024-01-31 the target month February 2024 has 29 days, fewer than 31,
  and the next occurrence is 2 March 2024 (year 2024, month index 2, day 2); from
  2024-01-15 it is 15 February 2024.
\<close>

theorem monthly_advance_overflows_witness:
  "DaysInMonth (getFullYear (Date_UTC 2024 0 31) + (getMonth (Date_UTC 2024 0 31) + 1) div 12)
       ((getMonth (Date_UTC 2024 0 31) + 1) mod 12) < getDate (Date_UTC 2024 0 31)
   \<and> getFullYear (nextDate Monthly 1 (Date_UTC 2024 0 31)) = 2024
   \<and> getMonth (nextDate Monthly 1 (Date_UTC 2024 0 31)) = 2
   \<and> getDate (nextDate Monthly 1 (Date_UTC 2024 0 31)) = 2
   \<and> getDate (Date_UTC 2024 0 15)
       \<le> DaysInMonth (getFullYear (Date_UTC 2024 0 15) + (getMonth (Date_UTC 2024 0 15) + 1) div 12)
            ((getMonth (Date_UTC 2024 0 15) + 1) mod 12)
   \<and> getFullYear (nextDate Monthly 1 (Date_UTC 2024 0 15)) = 2024
   \<and> getMonth (nextDate Monthly 1 (Date_UTC 2024 0 15)) = 1
   \<and> getDate (nextDate Monthly 1 (Date_UTC 2024 0 15)) = 15"
proof -
  have g: "getFullYear (Date_UTC 2024 0 31) = 2024" "getMonth (Date_UTC 2024 0 31) = 0"
    "getDate (Date_UTC 2024 0 31) = 31" by code_simp+
  have g': "getFullYear (Date_UTC 2024 0 15) = 2024" "getMonth (Date_UTC 2024 0 15) = 0"
    "getDate (Date_UTC 2024 0 15) = 15" by code_simp+
  have dim: "DaysInMonth 2024 1 = 29" by code_simp
  from monthly_advance_overflows [of 1 "Date_UTC 2024 0 31"]
  have a: "getFullYear (nextDate Monthly 1 (Date_UTC 2024 0 31)) = 2024
     \<and> getMonth (nextDate Monthly 1 (Date_UTC 2024 0 31)) = 2
     \<and> getDate (nextDate Monthly 1 (Date_UTC 2024 0 31)) = 2"
    unfolding g by (simp add: dim)
  from monthly_advance_overflows [of 1 "Date_UTC 2024 0 15"]
  have b: "getFullYear (nextDate Monthly 1 (Date_UTC 2024 0 15)) = 2024
     \<and> getMonth (nextDate Monthly 1 (Date_UTC 2024 0 15)) = 1
     \<and> getDate (nextDate Monthly 1 (Date_UTC 2024 0 15)) = 15"
    unfolding g' by (simp add: dim)
  from a b show ?thesis unfolding g g' by (simp add: dim)
qed

text \<open>
  C3, counterexample to the claim as stated: for the anchor 2024-01-31, monthly with
  interval 1, the next occurrence is 2024-03-02 and not 2024-02-29.
\<close>

theorem monthly_jan31_counterexample:
  "nextDate Monthly 1 (Date_UTC 2024 0 31) = Date_UTC 2024 2 2
   \<and> nextDate Monthly 1 (Date_UTC 2024 0 31) \<noteq> Date_UTC 2024 1 29
   \<and> Date_UTC 2024 0 31 = 1706659200000
   \<and> Date_UTC 2024 1 29 = 1709164800000
   \<and> Date_UTC 2024 2 2 = 1709337600000"
  by code_simp

subsection \<open>End of a recurrence\<close>

text \<open>
  C5. For every expense with a recurrence pattern, with the candidate being the anchor date
  advanced by \<open>interval\<close> units of \<open>frequency\<close> as \<open>nextDate\<close> computes it (and the anchor
  date itself for a pattern without a frequency): if the pattern has an end date and the
  candidate is strictly later, \<open>calculateNextOccurrence\<close> sets \<open>isRecurring\<close> to false and
  clears \<open>nextOccurrence\<close>; if the candidate is not later than the end date, or there is
  no end date, it sets \<open>nextOccurrence\<close> to the candidate. Nothing else changes.
\<close>

theorem calculateNextOccurrence_endDate:
  assumes "recurringPattern e = Some p"
  shows "(\<forall>ed. recurring_pattern.endDate p = Some ed
            \<and> nextOccurrence_candidate p (date e) > ed
          \<longrightarrow> calculateNextOccurrence e
                = e\<lparr>isRecurring := False,
                     recurringPattern := Some (p\<lparr>nextOccurrence := None\<rparr>)\<rparr>)
     \<and> (\<forall>ed. recurring_pattern.endDate p = Some ed
            \<and> nextOccurrence_candidate p (date e) \<le> ed
          \<longrightarrow> calculateNextOccurrence e
                = e\<lparr>recurringPattern := Some (p\<lparr>nextOccurrence :=
                       Some (nextOccurrence_candidate p (date e))\<rparr>)\<rparr>)
     \<and> (recurring_pattern.endDate p = None
          \<longrightarrow> calculateNextOccurrence e
                = e\<lparr>recurringPattern := Some (p\<lparr>nextOccurrence :=
                       Some (nextOccurrence_candidate p (date e))\<rparr>)\<rparr>)
     \<and> (\<forall>f. frequency p = Some f
          \<longrightarrow> nextOccurrence_candidate p (date e) = nextDate f (interval p) (date e))
     \<and> (frequency p = None \<longrightarrow> nextOccurrence_candidate p (date e) = date e)"
  using assms by (simp add: calculateNextOccurrence_def nextOccurrence_candidate_def Let_def)

text \<open>
  C5, witness: the monthly expense dated 2024-01-31 has the candidate 2024-03-02. With the
  end date 2024-02-15 the recurrence stops and the stored next occurrence is cleared; with
  the end date 2024-12-31 the next occurrence becomes 2024-03-02.
\<close>

theorem calculateNextOccurrence_endDate_witness:
  "recurringPattern (monthly_jan31 (Some (Date_UTC 2024 1 15)))
      = Some (pattern_monthly (Some (Date_UTC 2024 1 15)))
   \<and> frequency (pattern_monthly (Some (Date_UTC 2024 1 15))) = Some Monthly
   \<and> nextDate Monthly 1 (Date_UTC 2024 0 31) > Date_UTC 2024 1 15
   \<and> calculateNextOccurrence (monthly_jan31 (Some (Date_UTC 2024 1 15)))
      = (monthly_jan31 (Some (Date_UTC 2024 1 15)))
          \<lparr>isRecurring := False,
           recurringPattern := Some ((pattern_monthly (Some (Date_UTC 2024 1 15)))
              \<lparr>nextOccurrence := None\<rparr>)\<rparr>
   \<and> nextDate Monthly 1 (Date_UTC 2024 0 31) \<le> Date_UTC 2024 11 31
   \<and> calculateNextOccurrence (monthly_jan31 (Some (Date_UTC 2024 11 31)))
      = (monthly_jan31 (Some (Date_UTC 2024 11 31)))
          \<lparr>recurringPattern := Some ((pattern_monthly (Some (Date_UTC 2024 11 31)))
              \<lparr>nextOccurrence := Some (Date_UTC 2024 2 2)\<rparr>)\<rparr>"
proof -
  have c: "nextDate Monthly 1 (Date_UTC 2024 0 31) = Date_UTC 2024 2 2" by code_simp
  have lt: "Date_UTC 2024 1 15 < Date_UTC 2024 2 2" by code_simp
  have le: "Date_UTC 2024 2 2 \<le> Date_UTC 2024 11 31" by code_simp
  have p1: "recurringPattern (monthly_jan31 (Some (Date_UTC 2024 1 15)))
      = Some (pattern_monthly (Some (Date_UTC 2024 1 15)))" by (simp add: monthly_jan31_def)
  have p2: "recurringPattern (monthly_jan31 (Some (Date_UTC 2024 11 31)))
      = Some (pattern_monthly (Some (Date_UTC 2024 11 31)))" by (simp add: monthly_jan31_def)
  have f: "frequency (pattern_monthly ed) = Some Monthly" for ed by (simp add: pattern_monthly_def)
  have a: "calculateNextOccurrence (monthly_jan31 (Some (Date_UTC 2024 1 15)))
      = (monthly_jan31 (Some (Date_UTC 2024 1 15)))
          \<lparr>isRecurring := False,
           recurringPattern := Some ((pattern_monthly (Some (Date_UTC 2024 1 15)))
              \<lparr>nextOccurrence := None\<rparr>)\<rparr>"
    using calculateNextOccurrence_endDate [OF p1] c lt
    by (simp add: monthly_jan31_def pattern_monthly_def)
  have b: "calculateNextOccurrence (monthly_jan31 (Some (Date_UTC 2024 11 31)))
      = (monthly_jan31 (Some (Date_UTC 2024 11 31)))
          \<lparr>recurringPattern := Some ((pattern_monthly (Some (Date_UTC 2024 11 31)))
              \<lparr>nextOccurrence := Some (Date_UTC 2024 2 2)\<rparr>)\<rparr>"
    using calculateNextOccurrence_endDate [OF p2] c le
    by (simp add: monthly_jan31_def pattern_monthly_def)
  from p1 f a b c lt le show ?thesis by simp
qed

end
